theory Spec2Isabelle
  imports Complex_Main "HOL-Library.Sublist"
begin

section \<open>Python values\<close>

text \<open>
  The service in \<^verbatim>\<open>docker/ytdlp-api/server.py\<close> passes dictionaries of JSON-like values
  between the download engine (yt-dlp) and its callers. A value is \<^verbatim>\<open>None\<close>, a boolean, an
  integer, a number with a fraction, or a string. A Python \<^verbatim>\<open>float\<close> is modelled by the
  rational number it denotes (every finite float is one; \<^verbatim>\<open>nan\<close> and the infinities are
  outside the model), and arithmetic on it is exact. Strings are lists of 8-bit
  characters.
\<close>

datatype pyval = VNone | VBool bool | VInt int | VFloat rat | VStr string

text \<open>Python's truth value of an object, as \<^verbatim>\<open>or\<close> and \<^verbatim>\<open>not\<close> test it.\<close>

fun truthy :: "pyval \<Rightarrow> bool" where
  "truthy VNone = False"
| "truthy (VBool b) = b"
| "truthy (VInt i) = (i \<noteq> 0)"
| "truthy (VFloat q) = (q \<noteq> 0)"
| "truthy (VStr s) = (s \<noteq> [])"

type_synonym dict = "string \<rightharpoonup> pyval"

text \<open>\<^verbatim>\<open>d.get(k)\<close>: the value stored under \<^verbatim>\<open>k\<close>, \<^verbatim>\<open>None\<close> when the key is missing.\<close>

definition dict_get :: "dict \<Rightarrow> string \<Rightarrow> pyval" where
  "dict_get d k = (case d k of None \<Rightarrow> VNone | Some v \<Rightarrow> v)"

text \<open>\<^verbatim>\<open>a or b\<close>: the first operand when it is truthy, the second otherwise.\<close>

definition py_or :: "pyval \<Rightarrow> pyval \<Rightarrow> pyval" where
  "py_or a b = (if truthy a then a else b)"

section \<open>Strings\<close>

definition ascii_upper :: string where
  "ascii_upper = ''ABCDEFGHIJKLMNOPQRSTUVWXYZ''"

definition ascii_lower :: string where
  "ascii_lower = ''abcdefghijklmnopqrstuvwxyz''"

text \<open>
  \<^verbatim>\<open>str.lower()\<close> and \<^verbatim>\<open>str.upper()\<close> on ASCII text: the 26 letters change case, every
  other character stays. (Python also maps letters beyond ASCII; those are bytes above 127
  here and are left alone.)
\<close>

definition lower_char :: "char \<Rightarrow> char" where
  "lower_char c = (case map_of (zip ascii_upper ascii_lower) c of Some d \<Rightarrow> d | None \<Rightarrow> c)"

definition upper_char :: "char \<Rightarrow> char" where
  "upper_char c = (case map_of (zip ascii_lower ascii_upper) c of Some d \<Rightarrow> d | None \<Rightarrow> c)"

definition lower :: "string \<Rightarrow> string" where
  "lower s = map lower_char s"

definition upper :: "string \<Rightarrow> string" where
  "upper s = map upper_char s"

text \<open>\<^verbatim>\<open>s.startswith(p)\<close>.\<close>

fun startswith :: "string \<Rightarrow> string \<Rightarrow> bool" where
  "startswith s [] = True"
| "startswith [] (p # ps) = False"
| "startswith (c # cs) (p # ps) = (c = p \<and> startswith cs ps)"

text \<open>\<^verbatim>\<open>sub in s\<close>: \<^verbatim>\<open>sub\<close> occurs in \<^verbatim>\<open>s\<close> as a contiguous run.\<close>

fun contains :: "string \<Rightarrow> string \<Rightarrow> bool" where
  "contains [] sub = (sub = [])"
| "contains (c # cs) sub = (startswith (c # cs) sub \<or> contains cs sub)"

text \<open>\<^verbatim>\<open>str(n)\<close> for an integer: decimal digits, a minus sign for a negative number.\<close>

fun str_nat :: "nat \<Rightarrow> string" where
  "str_nat n = (if n < 10 then [''0123456789'' ! n]
                else str_nat (n div 10) @ [''0123456789'' ! (n mod 10)])"

declare str_nat.simps [simp del]

definition str_int :: "int \<Rightarrow> string" where
  "str_int i = (if i < 0 then CHR ''-'' # str_nat (nat (- i)) else str_nat (nat i))"

text \<open>\<^verbatim>\<open>int(x)\<close> on a float: truncation towards zero.\<close>

definition py_int :: "rat \<Rightarrow> int" where
  "py_int x = (if 0 \<le> x then \<lfloor>x\<rfloor> else \<lceil>x\<rceil>)"

text \<open>
  Rounding to the nearest integer, a tie going to the even neighbour: the rule of both
  \<^verbatim>\<open>round(x, n)\<close> and the \<^verbatim>\<open>.nf\<close> format.
\<close>

definition round_half_even :: "rat \<Rightarrow> int" where
  "round_half_even x =
     (let f = \<lfloor>x\<rfloor>; r = x - of_int f in
      if r < 1 / 2 then f
      else if 1 / 2 < r then f + 1
      else if even f then f else f + 1)"

text \<open>\<^verbatim>\<open>f"{x:.1f}"\<close>: one digit after the point.\<close>

definition format_1f :: "rat \<Rightarrow> string" where
  "format_1f x =
     (let n = round_half_even (\<bar>x\<bar> * 10) in
      (if x < 0 then ''-'' else []) @ str_int (n div 10) @ ''.'' @ str_int (n mod 10))"

text \<open>\<^verbatim>\<open>round(x, 2)\<close>.\<close>

definition round2 :: "rat \<Rightarrow> rat" where
  "round2 x = of_int (round_half_even (x * 100)) / 100"

text \<open>\<^verbatim>\<open>os.path.join(a, b)\<close> (POSIX): an absolute second part replaces the first.\<close>

definition path_join :: "string \<Rightarrow> string \<Rightarrow> string" where
  "path_join a b =
     (if startswith b ''/'' then b
      else if a = [] \<or> last a = CHR ''/'' then a @ b
      else a @ ''/'' @ b)"

text \<open>
  \<^verbatim>\<open>os.path.splitext(p)[1]\<close> (POSIX): the part of the last path component from its last
  dot on, empty when there is no dot or only dots come before it.
\<close>

definition splitext_ext :: "string \<Rightarrow> string" where
  "splitext_ext p =
     (let r = takeWhile (\<lambda>c. c \<noteq> CHR ''/'') (rev p) in
      case dropWhile (\<lambda>c. c \<noteq> CHR ''.'') r of
        [] \<Rightarrow> []
      | dot # stem \<Rightarrow>
          if list_ex (\<lambda>c. c \<noteq> CHR ''.'') stem
          then CHR ''.'' # rev (takeWhile (\<lambda>c. c \<noteq> CHR ''.'') r)
          else [])"

text \<open>\<^verbatim>\<open>s.lstrip(".")\<close>.\<close>

definition lstrip_dot :: "string \<Rightarrow> string" where
  "lstrip_dot s = dropWhile (\<lambda>c. c = CHR ''.'') s"

section \<open>Configuration\<close>

text \<open>
  The module reads its configuration from the environment once, at import. The pool size
  is a natural number: \<^verbatim>\<open>asyncio.Semaphore\<close> refuses a negative initial value, so the
  module does not load with one. The other two limits are any integers.
\<close>

record config =
  DOWNLOAD_DIR :: string
  MAX_CONCURRENT :: nat
  MAX_DURATION :: int
  MAX_FILE_SIZE_MB :: int

section \<open>The managed directory\<close>

text \<open>
  Of the file system the model holds the managed directory \<^verbatim>\<open>DOWNLOAD_DIR\<close> only: a list
  of named entries in the order \<^verbatim>\<open>os.listdir\<close> reports them. The path
  \<^verbatim>\<open>os.path.join(DOWNLOAD_DIR, f)\<close> of the source denotes the entry named \<^verbatim>\<open>f\<close>. An
  entry records whether it is a regular file, its size in bytes, its modification time in
  seconds, and the text of the \<^verbatim>\<open>OSError\<close> that \<^verbatim>\<open>os.unlink\<close> raises on it, if it does.
\<close>

record entry =
  regular :: bool
  st_size :: nat
  st_mtime :: rat
  unlink_error :: "string option"

type_synonym directory = "(string \<times> entry) list"

definition listdir :: "directory \<Rightarrow> string list" where
  "listdir dir = map fst dir"

definition enoent :: "string \<Rightarrow> string" where
  "enoent f = ''[Errno 2] No such file or directory: '' @ f"

definition isfile :: "directory \<Rightarrow> string \<Rightarrow> bool" where
  "isfile dir f = (case map_of dir f of None \<Rightarrow> False | Some e \<Rightarrow> regular e)"

definition getsize :: "directory \<Rightarrow> string \<Rightarrow> string + nat" where
  "getsize dir f = (case map_of dir f of None \<Rightarrow> Inl (enoent f) | Some e \<Rightarrow> Inr (st_size e))"

definition getmtime :: "directory \<Rightarrow> string \<Rightarrow> string + rat" where
  "getmtime dir f = (case map_of dir f of None \<Rightarrow> Inl (enoent f) | Some e \<Rightarrow> Inr (st_mtime e))"

definition unlink :: "directory \<Rightarrow> string \<Rightarrow> string + directory" where
  "unlink dir f =
     (case map_of dir f of
        None \<Rightarrow> Inl (enoent f)
      | Some e \<Rightarrow>
          (case unlink_error e of
             Some msg \<Rightarrow> Inl msg
           | None \<Rightarrow> Inr (filter (\<lambda>p. fst p \<noteq> f) dir)))"

section \<open>The engine\<close>

text \<open>
  yt-dlp is outside the repository. A call \<^verbatim>\<open>YoutubeDL(opts).extract_info(url, download)\<close>
  is a parameter of the model: a function of the options, the URL, the download flag and
  the managed directory, which raises (\<open>Inl\<close>, with the exception's text) or returns the
  info dictionary (\<open>Inr\<close>), and leaves the directory as it wrote it.
\<close>

type_synonym engine = "dict \<Rightarrow> string \<Rightarrow> bool \<Rightarrow> directory \<Rightarrow> (string + dict) \<times> directory"

section \<open>Info lookup\<close>

definition info_opts :: dict where
  "info_opts = [''quiet'' \<mapsto> VBool True,
                ''no_warnings'' \<mapsto> VBool True,
                ''skip_download'' \<mapsto> VBool True,
                ''no_check_certificate'' \<mapsto> VBool True,
                ''socket_timeout'' \<mapsto> VInt 15]"

text \<open>
  \<^verbatim>\<open>_extract_info\<close>. With \<^verbatim>\<open>skip_download\<close> the engine writes no file, so the directory it
  leaves is dropped.
\<close>

definition extract_info :: "engine \<Rightarrow> directory \<Rightarrow> string \<Rightarrow> string + dict" where
  "extract_info ydl dir url =
     (let opts = info_opts
      in case fst (ydl opts url False dir) of
           Inl e \<Rightarrow> Inl e
         | Inr info \<Rightarrow>
             Inr [''title'' \<mapsto> dict_get info ''title'',
                  ''duration'' \<mapsto> dict_get info ''duration'',
                  ''filesize'' \<mapsto> py_or (dict_get info ''filesize'') (dict_get info ''filesize_approx''),
                  ''uploader'' \<mapsto> dict_get info ''uploader'',
                  ''thumbnail'' \<mapsto> dict_get info ''thumbnail'',
                  ''url'' \<mapsto> py_or (dict_get info ''url'') (dict_get info ''webpage_url'')])"

section \<open>The error parser\<close>

text \<open>
  \<^verbatim>\<open>_parse_error\<close>, with \<^verbatim>\<open>MAX_DURATION\<close> as its first argument. The first test of the
  source is \<^verbatim>\<open>"does not pass filter" and "duration" in lower\<close>: Python reads it as
  \<^verbatim>\<open>"does not pass filter" and ("duration" in lower)\<close>, and a non-empty string literal is
  true, so the test is \<^verbatim>\<open>"duration" in lower\<close>. In the fifth test the second disjunct
  \<^verbatim>\<open>"confirm your age" in lower\<close> is kept as the source has it.
\<close>

definition parse_error :: "int \<Rightarrow> string \<Rightarrow> string" where
  "parse_error max_duration error_text =
     (let lower = lower error_text in
      if truthy (VStr ''does not pass filter'') \<and> contains lower ''duration'' then
        ''DURATION_TOO_LONG:over '' @ str_int (max_duration div 60) @ '' minutes''
      else if contains lower ''does not pass filter'' then
        ''DURATION_TOO_LONG:exceeds limit''
      else if contains lower ''private video'' \<or> contains lower ''sign in'' then
        ''This video is private or requires login''
      else if contains lower ''copyright'' \<or> contains lower ''blocked'' then
        ''This video is blocked due to copyright''
      else if contains lower ''age'' \<or> contains lower ''confirm your age'' then
        ''This video is age-restricted''
      else if contains lower ''unavailable'' \<or> contains lower ''not available'' then
        ''This video is unavailable''
      else if contains lower ''live'' then
        ''Cannot download live streams''
      else if contains lower ''premieres'' \<or> contains lower ''scheduled'' then
        ''This video has not premiered yet''
      else if contains lower ''members only'' then
        ''This video is for channel members only''
      else if contains lower ''unsupported url'' then
        ''Unsupported URL or no video found''
      else error_text)"

section \<open>Download\<close>

text \<open>
  Lines 122 to 123 of \<^verbatim>\<open>_download\<close>: a missing or empty file name is replaced by
  \<^verbatim>\<open>video_\<close> and the current time in milliseconds.
\<close>

definition resolve_filename :: "rat \<Rightarrow> string option \<Rightarrow> string" where
  "resolve_filename now filename =
     (case filename of
        None \<Rightarrow> ''video_'' @ str_int (py_int (now * 1000))
      | Some f \<Rightarrow> if f = [] then ''video_'' @ str_int (py_int (now * 1000)) else f)"

definition format_string :: "string \<Rightarrow> string" where
  "format_string quality =
     ''bestvideo[height='' @ quality @ ''][ext=mp4][vcodec^=avc1]+bestaudio[ext=m4a]/'' @
     ''bestvideo[height<='' @ quality @ ''][ext=mp4][vcodec^=avc1]+bestaudio[ext=m4a]/'' @
     ''bestvideo[height<='' @ quality @ ''][ext=mp4]+bestaudio[ext=m4a]/'' @
     ''bestvideo[height<='' @ quality @ '']+bestaudio/'' @
     ''best[height<='' @ quality @ ''][vcodec!*=none]''"

text \<open>
  The options of the download call. The match filter is a function object in the source;
  the model keeps the filter expression it is built from.
\<close>

definition download_opts :: "config \<Rightarrow> string \<Rightarrow> string \<Rightarrow> dict" where
  "download_opts cfg quality output_template =
     (let opts = [''format'' \<mapsto> VStr (format_string quality),
                  ''outtmpl'' \<mapsto> VStr output_template,
                  ''noplaylist'' \<mapsto> VBool True,
                  ''no_warnings'' \<mapsto> VBool True,
                  ''no_check_certificate'' \<mapsto> VBool True,
                  ''socket_timeout'' \<mapsto> VInt 30,
                  ''retries'' \<mapsto> VInt 5,
                  ''fragment_retries'' \<mapsto> VInt 5,
                  ''merge_output_format'' \<mapsto> VStr ''mp4'',
                  ''quiet'' \<mapsto> VBool True]
      in if MAX_DURATION cfg > 0
         then opts(''match_filter'' \<mapsto> VStr (''duration <= '' @ str_int (MAX_DURATION cfg)))
         else opts)"

text \<open>
  \<^verbatim>\<open>_download\<close>. The result is the exception's text or the result dictionary, and the
  managed directory as the call leaves it. \<^verbatim>\<open>now\<close> is the reading of \<^verbatim>\<open>time.time()\<close>.
\<close>

definition download ::
  "config \<Rightarrow> engine \<Rightarrow> rat \<Rightarrow> string \<Rightarrow> string \<Rightarrow> string option \<Rightarrow> directory
     \<Rightarrow> (string + dict) \<times> directory" where
  "download cfg ydl now url quality filename dir =
     (let fname = resolve_filename now filename;
          output_template = path_join (DOWNLOAD_DIR cfg) (fname @ ''.%(ext)s'')
      in case ydl (download_opts cfg quality output_template) url True dir of
           (Inl e, dir1) \<Rightarrow> (Inl e, dir1)
         | (Inr info, dir1) \<Rightarrow>
             (case find (\<lambda>f. startswith f fname) (listdir dir1) of
                None \<Rightarrow> (Inl ''Download completed but output file not found'', dir1)
              | Some actual_filename \<Rightarrow>
                  if actual_filename = [] then
                    (Inl ''Download completed but output file not found'', dir1)
                  else
                    (case getsize dir1 actual_filename of
                       Inl e \<Rightarrow> (Inl e, dir1)
                     | Inr file_size \<Rightarrow>
                         let file_size_mb = (of_nat file_size :: rat) / (1024 * 1024) in
                         if file_size = 0 then
                           (case unlink dir1 actual_filename of
                              Inl e \<Rightarrow> (Inl e, dir1)
                            | Inr dir2 \<Rightarrow> (Inl ''Downloaded file is empty'', dir2))
                         else if file_size_mb > of_int (MAX_FILE_SIZE_MB cfg) then
                           (case unlink dir1 actual_filename of
                              Inl e \<Rightarrow> (Inl e, dir1)
                            | Inr dir2 \<Rightarrow>
                                (Inl (''FILE_TOO_LARGE:'' @ format_1f file_size_mb @ ''MB''), dir2))
                         else
                           let ext = upper (lstrip_dot (splitext_ext actual_filename)) in
                           (Inr [''filename'' \<mapsto> VStr actual_filename,
                                 ''size_mb'' \<mapsto> VFloat (round2 file_size_mb),
                                 ''duration'' \<mapsto> dict_get info ''duration'',
                                 ''title'' \<mapsto> dict_get info ''title'',
                                 ''format'' \<mapsto> VStr (if ext \<noteq> [] then ext else ''MP4'')],
                            dir1))))"

section \<open>The download endpoint\<close>

text \<open>
  The shared state of the process: the value of the semaphore (the free slots), the
  counter \<^verbatim>\<open>active_downloads\<close>, and the managed directory.
\<close>

record server =
  semaphore :: nat
  active_downloads :: int
  downloads :: directory

record download_request =
  req_url :: string
  req_quality :: string
  req_filename :: "string option"

text \<open>A response: \<^verbatim>\<open>HTTPException(status_code, detail)\<close> or the returned dictionary.\<close>

type_synonym response = "(nat \<times> string) + dict"

text \<open>
  Lines 84 to 91 of \<^verbatim>\<open>download_video\<close>: the result of the job is returned, an exception
  of the job becomes status 400 with the parsed text of the exception as detail.
\<close>

definition job_response :: "config \<Rightarrow> string + dict \<Rightarrow> response" where
  "job_response cfg outcome =
     (case outcome of
        Inr result \<Rightarrow> Inr result
      | Inl e \<Rightarrow> Inl (400, parse_error (MAX_DURATION cfg) e))"

text \<open>Lines 78 to 81: the answer to a request whose wait for a slot timed out.\<close>

definition server_busy :: response where
  "server_busy = Inl (429, ''SERVER_BUSY:Too many concurrent downloads. Try again later.'')"

text \<open>
  \<^verbatim>\<open>download_video\<close>, run from its first line to its last with no other task scheduled
  in between. While nothing else runs, no slot is released, so
  \<^verbatim>\<open>asyncio.wait_for(semaphore.acquire(), timeout=5.0)\<close> takes a slot at once when one is
  free and raises \<^verbatim>\<open>TimeoutError\<close> when none is; how long that takes is the matter of the
  timed model below. The \<^verbatim>\<open>finally\<close> block runs on both exits of the \<^verbatim>\<open>try\<close>. The state
  may have more fields than the three of \<open>server\<close>; the call leaves them alone.
\<close>

definition download_video ::
  "config \<Rightarrow> engine \<Rightarrow> rat \<Rightarrow> download_request \<Rightarrow> 'a server_scheme
     \<Rightarrow> response \<times> 'a server_scheme" where
  "download_video cfg ydl now req s =
     (if semaphore s = 0 then (server_busy, s)
      else
        let s1 = s\<lparr>semaphore := semaphore s - 1\<rparr>;
            s2 = s1\<lparr>active_downloads := active_downloads s1 + 1\<rparr>;
            (outcome, dir') =
               download cfg ydl now (req_url req) (req_quality req) (req_filename req)
                 (downloads s2);
            s3 = s2\<lparr>downloads := dir'\<rparr>;
            resp = job_response cfg outcome;
            s4 = s3\<lparr>active_downloads := active_downloads s3 - 1\<rparr>;
            s5 = s4\<lparr>semaphore := semaphore s4 + 1\<rparr>
        in (resp, s5))"

subsection \<open>Interleaved requests\<close>

text \<open>
  Requests are coroutines on one event loop: a coroutine runs alone from one \<^verbatim>\<open>await\<close>
  to the next, and the loop picks which one continues. A request is in one of four
  phases: waiting in \<^verbatim>\<open>wait_for\<close> (line 76); holding a slot, not yet counted (between
  lines 76 and 83); counted and running its job in a worker thread (line 85); finished,
  with its response.
  An event is one step of one request, named by the request's index in arrival order:
  \<^item> \<open>Arrive\<close>: a new request enters \<^verbatim>\<open>download_video\<close> and waits;
  \<^item> \<open>Grant i\<close>: \<^verbatim>\<open>semaphore.acquire()\<close> takes a free slot for request \<open>i\<close>;
  \<^item> \<open>Timeout i\<close>: the wait of request \<open>i\<close> times out, the request ends with status 429
    (lines 77 to 81);
  \<^item> \<open>Start i\<close>: request \<open>i\<close> runs line 83, \<^verbatim>\<open>active_downloads += 1\<close>, and hands its job
    to a thread;
  \<^item> \<open>Finish i outcome dir\<close>: the job of request \<open>i\<close> has returned or raised (\<open>outcome\<close>),
    leaving the managed directory as \<open>dir\<close>; the request runs its \<^verbatim>\<open>finally\<close> block
    (lines 93 and 94, with no \<^verbatim>\<open>await\<close> in between) and ends.
  An event that is not enabled in a state has no successor (\<open>None\<close>). Here the time-out
  is enabled for every waiting request; the timed model below says when it fires.
\<close>

datatype phase = Waiting | Granted | Running | Finished response

datatype event =
  Arrive | Grant nat | Timeout nat | Start nat | Finish nat "string + dict" directory

record system = server +
  tasks :: "phase list"

definition in_phase :: "system \<Rightarrow> nat \<Rightarrow> phase \<Rightarrow> bool" where
  "in_phase s i p = (i < length (tasks s) \<and> tasks s ! i = p)"

fun step :: "config \<Rightarrow> event \<Rightarrow> system \<Rightarrow> system option" where
  "step cfg Arrive s = Some (s\<lparr>tasks := tasks s @ [Waiting]\<rparr>)"
| "step cfg (Grant i) s =
     (if in_phase s i Waiting \<and> 0 < semaphore s
      then Some (s\<lparr>semaphore := semaphore s - 1, tasks := (tasks s)[i := Granted]\<rparr>)
      else None)"
| "step cfg (Timeout i) s =
     (if in_phase s i Waiting
      then Some (s\<lparr>tasks := (tasks s)[i := Finished server_busy]\<rparr>)
      else None)"
| "step cfg (Start i) s =
     (if in_phase s i Granted
      then Some (s\<lparr>active_downloads := active_downloads s + 1,
                   tasks := (tasks s)[i := Running]\<rparr>)
      else None)"
| "step cfg (Finish i outcome dir) s =
     (if in_phase s i Running
      then Some (s\<lparr>active_downloads := active_downloads s - 1,
                   semaphore := semaphore s + 1,
                   downloads := dir,
                   tasks := (tasks s)[i := Finished (job_response cfg outcome)]\<rparr>)
      else None)"

fun run :: "config \<Rightarrow> event list \<Rightarrow> system \<Rightarrow> system option" where
  "run cfg [] s = Some s"
| "run cfg (e # es) s = (case step cfg e s of None \<Rightarrow> None | Some s' \<Rightarrow> run cfg es s')"

text \<open>The process after start-up: every slot free, no job counted, no request.\<close>

definition startup :: "config \<Rightarrow> directory \<Rightarrow> system" where
  "startup cfg dir =
     \<lparr>semaphore = MAX_CONCURRENT cfg, active_downloads = 0, downloads = dir, tasks = []\<rparr>"

subsection \<open>The wait for a slot\<close>

text \<open>
  Line 76 bounds the wait: \<^verbatim>\<open>asyncio.wait_for(semaphore.acquire(), timeout=5.0)\<close> arms a
  timer for 5 seconds after the call, on the clock of the event loop. When the timer is due
  and the request still has no slot, the acquisition is cancelled and \<^verbatim>\<open>TimeoutError\<close> is
  raised in the request (line 77).
\<close>

definition acquire_timeout :: rat where
  "acquire_timeout = 5"

text \<open>
  The timed model adds to the state of the interleaved model the clock of the event loop
  and, for every request, the clock reading at which it entered the wait.
\<close>

record timed =
  sys :: system
  clock :: rat
  arrival :: "rat list"

text \<open>The timer of request \<open>i\<close> is due at its deadline.\<close>

definition deadline :: "timed \<Rightarrow> nat \<Rightarrow> rat" where
  "deadline s i = arrival s ! i + acquire_timeout"

text \<open>The requests that are waiting for a slot, by index.\<close>

definition waiting :: "timed \<Rightarrow> nat list" where
  "waiting s = filter (\<lambda>i. tasks (sys s) ! i = Waiting) [0..<length (tasks (sys s))]"

text \<open>
  A timed event is the passing of \<open>d\<close> seconds (\<open>Elapse d\<close>) or an event of the interleaved
  model (\<open>Act\<close>), which takes no time:
  \<^item> time passes up to the next deadline of a waiting request and not beyond it: the loop
    runs the handler of a timer when the timer is due, before it sleeps again;
  \<^item> \<open>Arrive\<close> records the clock reading as the arrival time of the new request;
  \<^item> \<open>Timeout i\<close> needs request \<open>i\<close> to be waiting and its timer to be due;
  \<^item> every other event is enabled as in the interleaved model. In particular a free slot
    can be granted to a waiting request at any time up to and including the instant of its
    deadline.
\<close>

datatype timed_event = Elapse rat | Act event

fun timed_step :: "config \<Rightarrow> timed_event \<Rightarrow> timed \<Rightarrow> timed option" where
  "timed_step cfg (Elapse d) s =
     (if 0 \<le> d \<and> list_all (\<lambda>i. clock s + d \<le> deadline s i) (waiting s)
      then Some (s\<lparr>clock := clock s + d\<rparr>)
      else None)"
| "timed_step cfg (Act Arrive) s =
     map_option (\<lambda>t. s\<lparr>sys := t, arrival := arrival s @ [clock s]\<rparr>) (step cfg Arrive (sys s))"
| "timed_step cfg (Act (Timeout i)) s =
     (if in_phase (sys s) i Waiting \<and> deadline s i \<le> clock s
      then map_option (\<lambda>t. s\<lparr>sys := t\<rparr>) (step cfg (Timeout i) (sys s))
      else None)"
| "timed_step cfg (Act e) s = map_option (\<lambda>t. s\<lparr>sys := t\<rparr>) (step cfg e (sys s))"

fun timed_run :: "config \<Rightarrow> timed_event list \<Rightarrow> timed \<Rightarrow> timed option" where
  "timed_run cfg [] s = Some s"
| "timed_run cfg (e # es) s =
     (case timed_step cfg e s of None \<Rightarrow> None | Some s' \<Rightarrow> timed_run cfg es s')"

text \<open>The process after start-up, with the clock of the loop at \<open>t0\<close>.\<close>

definition timed_startup :: "config \<Rightarrow> directory \<Rightarrow> rat \<Rightarrow> timed" where
  "timed_startup cfg dir t0 = \<lparr>sys = startup cfg dir, clock = t0, arrival = []\<rparr>"

text \<open>The events of the interleaved model in a timed schedule.\<close>

fun acts :: "timed_event list \<Rightarrow> event list" where
  "acts [] = []"
| "acts (Elapse d # es) = acts es"
| "acts (Act e # es) = e # acts es"

section \<open>Periodic cleanup\<close>

text \<open>
  One pass of the loop body of \<^verbatim>\<open>_cleanup_old_files\<close> for the name \<^verbatim>\<open>f\<close>: the body of the
  \<^verbatim>\<open>try\<close> first, with an exception as \<open>Inl\<close>, then the handler, which drops the exception
  and keeps the directory as it is.
\<close>

definition cleanup_try :: "rat \<Rightarrow> directory \<Rightarrow> string \<Rightarrow> string + directory" where
  "cleanup_try now dir f =
     (if isfile dir f then
        (case getmtime dir f of
           Inl e \<Rightarrow> Inl e
         | Inr m \<Rightarrow> if now - m > 600 then unlink dir f else Inr dir)
      else Inr dir)"

definition cleanup_file :: "rat \<Rightarrow> directory \<Rightarrow> string \<Rightarrow> directory" where
  "cleanup_file now dir f = (case cleanup_try now dir f of Inl e \<Rightarrow> dir | Inr dir' \<Rightarrow> dir')"

text \<open>
  \<^verbatim>\<open>_cleanup_old_files\<close>. The listing is taken once, before the loop. \<^verbatim>\<open>os.listdir\<close> can
  raise (the directory is missing or unreadable at that moment): \<open>listdir_error\<close> is the
  text of that exception, if it is raised in this call; it leaves the function.
\<close>

definition cleanup_old_files :: "rat \<Rightarrow> string option \<Rightarrow> directory \<Rightarrow> string + directory" where
  "cleanup_old_files now listdir_error dir =
     (case listdir_error of
        Some msg \<Rightarrow> Inl msg
      | None \<Rightarrow> Inr (foldl (cleanup_file now) dir (listdir dir)))"

text \<open>
  \<^verbatim>\<open>_cleanup_loop\<close> never returns. Its model runs the cycles of a finite list, one per
  wake-up, each with the clock reading and the listing error of that cycle; an exception
  of a cycle is caught by the loop and the next cycle starts from the same directory.
\<close>

fun cleanup_loop :: "(rat \<times> string option) list \<Rightarrow> directory \<Rightarrow> directory" where
  "cleanup_loop [] dir = dir"
| "cleanup_loop ((now, listdir_error) # cycles) dir =
     cleanup_loop cycles
       (case cleanup_old_files now listdir_error dir of Inl e \<Rightarrow> dir | Inr dir' \<Rightarrow> dir')"

section \<open>Predicates of the proofs\<close>

text \<open>
  The characters \<^verbatim>\<open>format_1f\<close> produces for a number that is not negative: digits and
  the point.
\<close>

definition numeric :: "char set" where
  "numeric = set ''0123456789.''"

text \<open>
  The invariant of the interleaved model: every slot is free, or held by a request in
  phase \<open>Granted\<close> or \<open>Running\<close>, and the counter is the number of requests in phase
  \<open>Running\<close>.
\<close>

definition pool_inv :: "config \<Rightarrow> system \<Rightarrow> bool" where
  "pool_inv cfg s \<longleftrightarrow>
     semaphore s + count_list (tasks s) Granted + count_list (tasks s) Running = MAX_CONCURRENT cfg \<and>
     active_downloads s = int (count_list (tasks s) Running)"

text \<open>
  The invariant of the timed model: every request has an arrival time, no arrival lies in
  the future, and no waiting request is past its deadline.
\<close>

definition wait_inv :: "timed \<Rightarrow> bool" where
  "wait_inv s \<longleftrightarrow>
     length (arrival s) = length (tasks (sys s)) \<and>
     list_all (\<lambda>a. a \<le> clock s) (arrival s) \<and>
     list_all (\<lambda>i. clock s \<le> deadline s i) (waiting s)"

section \<open>Facts about strings\<close>

lemma startswith_prefix: "startswith s p \<longleftrightarrow> prefix p s"
  by (induction s p rule: startswith.induct) auto

lemma contains_sublist: "contains s p \<longleftrightarrow> sublist p s"
proof (induction s)
  case Nil
  show ?case by simp
next
  case (Cons c cs)
  show ?case
  proof (cases p)
    case Nil
    then show ?thesis by simp
  next
    case (Cons q qs)
    with Cons.IH show ?thesis
      by (simp add: startswith_prefix sublist_Cons_right del: startswith.simps)
  qed
qed

lemma contains_middle: "contains (pre @ v @ post) v"
  by (simp add: contains_sublist)

lemma lower_append: "lower (a @ b) = lower a @ lower b"
  by (simp add: lower_def)

lemma contains_skip:
  assumes "set m \<inter> set p = {}" and "m \<noteq> []"
  shows "contains (a @ m @ b) p \<longleftrightarrow> contains a p \<or> contains b p"
proof (cases "p = []")
  case True
  then show ?thesis by (simp add: contains_sublist)
next
  case False
  have no_m: "\<not> sublist p m"
  proof
    assume "sublist p m"
    then have "set p \<subseteq> set m" by (rule set_mono_sublist)
    with assms False show False by (cases p) auto
  qed
  have right: "sublist p (m @ b) \<longleftrightarrow> sublist p b"
  proof
    assume "sublist p (m @ b)"
    then consider "sublist p m" | "sublist p b"
      | x1 x2 where "p = x1 @ x2" "suffix x1 m" "prefix x2 b"
      by (auto simp: sublist_append)
    then show "sublist p b"
    proof cases
      case 1 with no_m show ?thesis by simp
    next
      case 2 then show ?thesis .
    next
      case 3
      show ?thesis
      proof (cases "x1 = []")
        case True
        with 3 show ?thesis by (auto intro: prefix_imp_sublist)
      next
        case False
        then have "last x1 \<in> set x1" by simp
        moreover from 3 have "set x1 \<subseteq> set m" by (auto simp: suffix_def)
        moreover from 3 have "set x1 \<subseteq> set p" by auto
        ultimately show ?thesis using assms by auto
      qed
    qed
  next
    assume "sublist p b"
    then show "sublist p (m @ b)" by (simp add: sublist_append)
  qed
  have "sublist p (a @ (m @ b)) \<longleftrightarrow> sublist p a \<or> sublist p (m @ b)"
  proof
    assume "sublist p (a @ (m @ b))"
    then consider "sublist p a" | "sublist p (m @ b)"
      | x1 x2 where "p = x1 @ x2" "suffix x1 a" "prefix x2 (m @ b)"
      by (auto simp: sublist_append)
    then show "sublist p a \<or> sublist p (m @ b)"
    proof cases
      case 1 then show ?thesis by simp
    next
      case 2 then show ?thesis by simp
    next
      case 3
      show ?thesis
      proof (cases "x2 = []")
        case True
        with 3 show ?thesis by (auto intro: suffix_imp_sublist)
      next
        case False
        with 3 assms(2) have "hd x2 = hd m"
          by (cases x2; cases m) (auto simp: prefix_def)
        moreover from False have "hd x2 \<in> set p" using 3 by (cases x2) auto
        moreover from assms(2) have "hd m \<in> set m" by simp
        ultimately have "hd m \<in> set m \<inter> set p" by simp
        with assms(1) show ?thesis by blast
      qed
    qed
  next
    assume "sublist p a \<or> sublist p (m @ b)"
    then show "sublist p (a @ (m @ b))" by (auto simp: sublist_append)
  qed
  with right show ?thesis by (simp add: contains_sublist)
qed

lemmas lower_eval = lower_def lower_char_def ascii_upper_def ascii_lower_def

lemma str_nat_digits: "set (str_nat n) \<subseteq> set ''0123456789''"
proof (induction n rule: str_nat.induct)
  case (1 n)
  have d: "''0123456789'' ! k \<in> set ''0123456789''" if "k < 10" for k
    using that by (intro nth_mem) simp
  show ?case
  proof (cases "n < 10")
    case True
    with d [of n] show ?thesis by (subst str_nat.simps) simp
  next
    case False
    with 1 d [of "n mod 10"] show ?thesis by (subst str_nat.simps) simp
  qed
qed

lemma str_nat_nonempty: "str_nat n \<noteq> []"
  by (subst str_nat.simps) simp

lemma str_nat_numeric: "set (str_nat n) \<subseteq> numeric"
proof -
  have "set ''0123456789'' \<subseteq> numeric" by (simp add: numeric_def)
  with str_nat_digits [of n] show ?thesis by (rule subset_trans)
qed

lemma round_half_even_nonneg: "0 \<le> x \<Longrightarrow> 0 \<le> round_half_even x"
  by (auto simp: round_half_even_def Let_def)

lemma round_half_even_near: "\<bar>x - of_int (round_half_even x)\<bar> \<le> 1 / 2"
proof -
  have "of_int \<lfloor>x\<rfloor> \<le> x" "x < of_int \<lfloor>x\<rfloor> + 1" by linarith+
  then show ?thesis
    by (auto simp: round_half_even_def Let_def abs_le_iff)
qed

lemma format_1f_nonneg:
  assumes "0 \<le> x"
  shows "format_1f x = str_nat (nat (round_half_even (x * 10)) div 10) @ ''.'' @
                       str_nat (nat (round_half_even (x * 10)) mod 10)"
proof -
  from assms have "0 \<le> round_half_even (x * 10)" by (intro round_half_even_nonneg) simp
  then obtain k where k: "round_half_even (x * 10) = int k" by (metis nonneg_int_cases)
  have "int k div 10 = int (k div 10)" "int k mod 10 = int (k mod 10)"
    by (simp_all add: zdiv_int zmod_int)
  with assms k show ?thesis
    by (simp add: format_1f_def Let_def str_int_def)
qed

lemma format_1f_numeric:
  assumes "0 \<le> x"
  shows "set (format_1f x) \<subseteq> numeric"
proof -
  have "CHR ''.'' \<in> numeric" by (simp add: numeric_def)
  with str_nat_numeric show ?thesis
    by (simp add: format_1f_nonneg [OF assms])
qed

lemma format_1f_nonempty: "format_1f x \<noteq> []"
  by (simp add: format_1f_def Let_def)

lemma lower_numeric: "set m \<subseteq> numeric \<Longrightarrow> lower m = m"
proof -
  have "\<forall>c\<in>numeric. lower_char c = c"
    unfolding numeric_def by (simp add: lower_eval)
  then show "set m \<subseteq> numeric \<Longrightarrow> lower m = m"
    unfolding lower_def by (intro map_idI) blast
qed

lemma no_pattern:
  assumes "set m \<subseteq> numeric" and "m \<noteq> []" and "set p \<inter> numeric = {}"
    and "\<not> contains a p" and "\<not> contains b p"
  shows "\<not> contains (a @ m @ b) p"
proof -
  from assms(1,3) have "set m \<inter> set p = {}" by blast
  from contains_skip [OF this assms(2)] assms(4,5) show ?thesis by simp
qed

lemma floor_rat_numeral_div:
  "\<lfloor>(numeral a :: rat) / numeral b\<rfloor> = numeral a div numeral b"
  using floor_divide_of_int_eq [of "numeral a" "numeral b", where ?'a = rat] by simp

lemmas num_eval = round_half_even_def round2_def format_1f_def Let_def str_int_def str_nat.simps
  floor_rat_numeral_div

lemma ext_example: "upper (lstrip_dot (splitext_ext ''clip10.mp4'')) = ''MP4''"
  by (simp add: upper_def upper_char_def ascii_upper_def ascii_lower_def lstrip_dot_def
        splitext_ext_def)

section \<open>Facts about the error parser\<close>

lemma parse_error_file_too_large:
  assumes "set m \<subseteq> numeric" and "m \<noteq> []"
  shows "parse_error md (''FILE_TOO_LARGE:'' @ m @ ''MB'') = ''FILE_TOO_LARGE:'' @ m @ ''MB''"
proof -
  have low: "lower (''FILE_TOO_LARGE:'' @ m @ ''MB'') = ''file_too_large:'' @ m @ ''mb''"
    using lower_numeric [OF assms(1)] by (simp add: lower_append) (simp add: lower_eval)
  note np = no_pattern [OF assms, of _ "''file_too_large:''" "''mb''"]
  have "\<not> contains (''file_too_large:'' @ m @ ''mb'') ''duration''"
    by (rule np) (simp_all add: numeric_def)
  moreover have "\<not> contains (''file_too_large:'' @ m @ ''mb'') ''does not pass filter''"
    by (rule np) (simp_all add: numeric_def)
  moreover have "\<not> contains (''file_too_large:'' @ m @ ''mb'') ''private video''"
    by (rule np) (simp_all add: numeric_def)
  moreover have "\<not> contains (''file_too_large:'' @ m @ ''mb'') ''sign in''"
    by (rule np) (simp_all add: numeric_def)
  moreover have "\<not> contains (''file_too_large:'' @ m @ ''mb'') ''copyright''"
    by (rule np) (simp_all add: numeric_def)
  moreover have "\<not> contains (''file_too_large:'' @ m @ ''mb'') ''blocked''"
    by (rule np) (simp_all add: numeric_def)
  moreover have "\<not> contains (''file_too_large:'' @ m @ ''mb'') ''age''"
    by (rule np) (simp_all add: numeric_def)
  moreover have "\<not> contains (''file_too_large:'' @ m @ ''mb'') ''confirm your age''"
    by (rule np) (simp_all add: numeric_def)
  moreover have "\<not> contains (''file_too_large:'' @ m @ ''mb'') ''unavailable''"
    by (rule np) (simp_all add: numeric_def)
  moreover have "\<not> contains (''file_too_large:'' @ m @ ''mb'') ''not available''"
    by (rule np) (simp_all add: numeric_def)
  moreover have "\<not> contains (''file_too_large:'' @ m @ ''mb'') ''live''"
    by (rule np) (simp_all add: numeric_def)
  moreover have "\<not> contains (''file_too_large:'' @ m @ ''mb'') ''premieres''"
    by (rule np) (simp_all add: numeric_def)
  moreover have "\<not> contains (''file_too_large:'' @ m @ ''mb'') ''scheduled''"
    by (rule np) (simp_all add: numeric_def)
  moreover have "\<not> contains (''file_too_large:'' @ m @ ''mb'') ''members only''"
    by (rule np) (simp_all add: numeric_def)
  moreover have "\<not> contains (''file_too_large:'' @ m @ ''mb'') ''unsupported url''"
    by (rule np) (simp_all add: numeric_def)
  ultimately show ?thesis
    unfolding parse_error_def Let_def low by (simp only: if_False simp_thms)
qed

lemma parse_error_empty_file:
  "parse_error md ''Downloaded file is empty'' = ''Downloaded file is empty''"
  by (simp add: parse_error_def lower_eval)

section \<open>Facts about the download\<close>

lemma resolve_filename_nonempty: "resolve_filename now filename \<noteq> []"
  by (simp add: resolve_filename_def split: option.splits)

lemma listdir_filter_gone: "f \<notin> set (listdir (filter (\<lambda>p. fst p \<noteq> f) dir))"
  by (auto simp: listdir_def)

lemma download_empty:
  assumes "ydl (download_opts cfg quality
                  (path_join (DOWNLOAD_DIR cfg) (resolve_filename now filename @ ''.%(ext)s'')))
               url True dir = (Inr info, dir1)"
    and "find (\<lambda>f. startswith f (resolve_filename now filename)) (listdir dir1) = Some f"
    and "map_of dir1 f = Some e"
    and "st_size e = 0"
    and "unlink_error e = None"
  shows "download cfg ydl now url quality filename dir =
           (Inl ''Downloaded file is empty'', filter (\<lambda>p. fst p \<noteq> f) dir1)"
proof -
  from assms(2) have "startswith f (resolve_filename now filename)"
    by (auto simp: find_Some_iff)
  with resolve_filename_nonempty [of now filename] have "f \<noteq> []"
    by (cases "resolve_filename now filename") auto
  with assms show ?thesis
    by (simp add: download_def Let_def getsize_def unlink_def)
qed

lemma download_too_large:
  assumes "ydl (download_opts cfg quality
                  (path_join (DOWNLOAD_DIR cfg) (resolve_filename now filename @ ''.%(ext)s'')))
               url True dir = (Inr info, dir1)"
    and "find (\<lambda>f. startswith f (resolve_filename now filename)) (listdir dir1) = Some f"
    and "map_of dir1 f = Some e"
    and "st_size e \<noteq> 0"
    and "of_int (MAX_FILE_SIZE_MB cfg) < (of_nat (st_size e) :: rat) / (1024 * 1024)"
    and "unlink_error e = None"
  shows "download cfg ydl now url quality filename dir =
           (Inl (''FILE_TOO_LARGE:'' @ format_1f (of_nat (st_size e) / (1024 * 1024)) @ ''MB''),
            filter (\<lambda>p. fst p \<noteq> f) dir1)"
proof -
  from assms(2) have "startswith f (resolve_filename now filename)"
    by (auto simp: find_Some_iff)
  with resolve_filename_nonempty [of now filename] have "f \<noteq> []"
    by (cases "resolve_filename now filename") auto
  with assms show ?thesis
    by (simp add: download_def Let_def getsize_def unlink_def)
qed

lemma download_unlink_fails:
  assumes "ydl (download_opts cfg quality
                  (path_join (DOWNLOAD_DIR cfg) (resolve_filename now filename @ ''.%(ext)s'')))
               url True dir = (Inr info, dir1)"
    and "find (\<lambda>f. startswith f (resolve_filename now filename)) (listdir dir1) = Some f"
    and "map_of dir1 f = Some e"
    and "st_size e = 0 \<or> of_int (MAX_FILE_SIZE_MB cfg) < (of_nat (st_size e) :: rat) / (1024 * 1024)"
    and "unlink_error e = Some msg"
  shows "download cfg ydl now url quality filename dir = (Inl msg, dir1)"
proof -
  from assms(2) have "startswith f (resolve_filename now filename)"
    by (auto simp: find_Some_iff)
  with resolve_filename_nonempty [of now filename] have "f \<noteq> []"
    by (cases "resolve_filename now filename") auto
  with assms show ?thesis
    by (auto simp: download_def Let_def getsize_def unlink_def)
qed

lemma download_video_semaphore:
  "semaphore (snd (download_video cfg ydl now req s)) = semaphore s"
  by (simp add: download_video_def Let_def split: prod.splits)

lemma download_video_active:
  "active_downloads (snd (download_video cfg ydl now req s)) = active_downloads s"
  by (simp add: download_video_def Let_def split: prod.splits)

lemma download_success_filename:
  assumes "download cfg ydl now url quality filename dir = (Inr result, dir')"
  shows "\<exists>i. i < length (listdir dir') \<and>
           result ''filename'' = Some (VStr (listdir dir' ! i)) \<and>
           startswith (listdir dir' ! i) (resolve_filename now filename) \<and>
           (\<forall>j<i. \<not> startswith (listdir dir' ! j) (resolve_filename now filename)) \<and>
           dir' = snd (ydl (download_opts cfg quality
                       (path_join (DOWNLOAD_DIR cfg) (resolve_filename now filename @ ''.%(ext)s'')))
                     url True dir)"
proof -
  let ?fname = "resolve_filename now filename"
  let ?call = "ydl (download_opts cfg quality (path_join (DOWNLOAD_DIR cfg) (?fname @ ''.%(ext)s'')))
                 url True dir"
  obtain r dir1 where call: "?call = (r, dir1)" by (cases ?call)
  from assms call obtain info where r: "r = Inr info"
    by (cases r) (auto simp: download_def Let_def)
  from assms call r obtain actual where
    found: "find (\<lambda>f. startswith f ?fname) (listdir dir1) = Some actual"
    by (cases "find (\<lambda>f. startswith f ?fname) (listdir dir1)") (auto simp: download_def Let_def)
  from assms call r found have res: "result ''filename'' = Some (VStr actual)" and d: "dir' = dir1"
    by (auto simp: download_def Let_def split: if_splits sum.splits)
  from found obtain i where i: "i < length (listdir dir1)" "listdir dir1 ! i = actual"
    "startswith actual ?fname" "\<forall>j<i. \<not> startswith (listdir dir1 ! j) ?fname"
    by (auto simp: find_Some_iff)
  from i res d call show ?thesis by auto
qed

lemma download_success:
  assumes "ydl (download_opts cfg quality
                  (path_join (DOWNLOAD_DIR cfg) (resolve_filename now filename @ ''.%(ext)s'')))
               url True dir = (Inr info, dir1)"
    and "find (\<lambda>f. startswith f (resolve_filename now filename)) (listdir dir1) = Some f"
    and "map_of dir1 f = Some e"
    and "st_size e \<noteq> 0"
    and "\<not> of_int (MAX_FILE_SIZE_MB cfg) < (of_nat (st_size e) :: rat) / (1024 * 1024)"
  shows "download cfg ydl now url quality filename dir =
           (Inr [''filename'' \<mapsto> VStr f,
                 ''size_mb'' \<mapsto> VFloat (round2 (of_nat (st_size e) / (1024 * 1024))),
                 ''duration'' \<mapsto> dict_get info ''duration'',
                 ''title'' \<mapsto> dict_get info ''title'',
                 ''format'' \<mapsto> VStr (if upper (lstrip_dot (splitext_ext f)) \<noteq> []
                                         then upper (lstrip_dot (splitext_ext f)) else ''MP4'')],
            dir1)"
proof -
  from assms(2) have "startswith f (resolve_filename now filename)"
    by (auto simp: find_Some_iff)
  with resolve_filename_nonempty [of now filename] have "f \<noteq> []"
    by (cases "resolve_filename now filename") auto
  with assms show ?thesis
    by (simp add: download_def Let_def getsize_def)
qed

lemma download_example_returned:
  "download
     \<lparr>DOWNLOAD_DIR = ''/downloads'', MAX_CONCURRENT = 5, MAX_DURATION = 600, MAX_FILE_SIZE_MB = 100\<rparr>
     (\<lambda>opts url dl dir.
        (Inr Map.empty,
         dir @ [(''clip1.mp4'', \<lparr>regular = True, st_size = 3145728, st_mtime = 1000,
                                  unlink_error = None\<rparr>)]))
     1000 ''https://example.org/v'' ''720'' (Some ''clip1'')
     [(''clip10.mp4'', \<lparr>regular = True, st_size = 1048576, st_mtime = 10, unlink_error = None\<rparr>)]
   = (Inr [''filename'' \<mapsto> VStr ''clip10.mp4'',
           ''size_mb'' \<mapsto> VFloat 1,
           ''duration'' \<mapsto> VNone,
           ''title'' \<mapsto> VNone,
           ''format'' \<mapsto> VStr ''MP4''],
      [(''clip10.mp4'', \<lparr>regular = True, st_size = 1048576, st_mtime = 10, unlink_error = None\<rparr>),
       (''clip1.mp4'', \<lparr>regular = True, st_size = 3145728, st_mtime = 1000, unlink_error = None\<rparr>)])"
proof -
  let ?cfg = "\<lparr>DOWNLOAD_DIR = ''/downloads'', MAX_CONCURRENT = 5, MAX_DURATION = 600,
               MAX_FILE_SIZE_MB = 100\<rparr>"
  let ?e1 = "\<lparr>regular = True, st_size = 3145728, st_mtime = 1000, unlink_error = None\<rparr>"
  let ?e10 = "\<lparr>regular = True, st_size = 1048576, st_mtime = 10, unlink_error = None\<rparr>"
  let ?ydl = "\<lambda>(opts::dict) (url::string) (dl::bool) (dir::directory).
                (Inr Map.empty :: string + dict, dir @ [(''clip1.mp4'', ?e1)])"
  let ?dir1 = "[(''clip10.mp4'', ?e10), (''clip1.mp4'', ?e1)]"
  have call: "?ydl (download_opts ?cfg ''720''
                 (path_join (DOWNLOAD_DIR ?cfg)
                    (resolve_filename 1000 (Some ''clip1'') @ ''.%(ext)s'')))
               ''https://example.org/v'' True [(''clip10.mp4'', ?e10)] = (Inr Map.empty, ?dir1)"
    by simp
  have found: "find (\<lambda>f. startswith f (resolve_filename 1000 (Some ''clip1''))) (listdir ?dir1)
                 = Some ''clip10.mp4''"
    by (simp add: listdir_def resolve_filename_def)
  have entry: "map_of ?dir1 ''clip10.mp4'' = Some ?e10" by simp
  have size: "st_size ?e10 \<noteq> 0" by simp
  have small: "\<not> of_int (MAX_FILE_SIZE_MB ?cfg) < (of_nat (st_size ?e10) :: rat) / (1024 * 1024)"
    by simp
  have r: "round2 (of_nat (st_size ?e10) / (1024 * 1024)) = 1"
    by (simp add: num_eval)
  from download_success [where ydl = ?ydl and dir = "[(''clip10.mp4'', ?e10)]", OF call found entry size small]
  show ?thesis
    by (simp only: r ext_example) (simp add: dict_get_def)
qed

lemma download_example_deleted:
  "download
     \<lparr>DOWNLOAD_DIR = ''/downloads'', MAX_CONCURRENT = 5, MAX_DURATION = 600, MAX_FILE_SIZE_MB = 100\<rparr>
     (\<lambda>opts url dl dir.
        (Inr Map.empty,
         dir @ [(''clip1.mp4'', \<lparr>regular = True, st_size = 3145728, st_mtime = 1000,
                                  unlink_error = None\<rparr>)]))
     1000 ''https://example.org/v'' ''720'' (Some ''clip1'')
     [(''clip10.mp4'', \<lparr>regular = True, st_size = 0, st_mtime = 10, unlink_error = None\<rparr>)]
   = (Inl ''Downloaded file is empty'',
      [(''clip1.mp4'', \<lparr>regular = True, st_size = 3145728, st_mtime = 1000, unlink_error = None\<rparr>)])"
proof -
  let ?cfg = "\<lparr>DOWNLOAD_DIR = ''/downloads'', MAX_CONCURRENT = 5, MAX_DURATION = 600,
               MAX_FILE_SIZE_MB = 100\<rparr>"
  let ?e1 = "\<lparr>regular = True, st_size = 3145728, st_mtime = 1000, unlink_error = None\<rparr>"
  let ?e10 = "\<lparr>regular = True, st_size = 0, st_mtime = 10, unlink_error = None\<rparr>"
  let ?ydl = "\<lambda>(opts::dict) (url::string) (dl::bool) (dir::directory).
                (Inr Map.empty :: string + dict, dir @ [(''clip1.mp4'', ?e1)])"
  let ?dir1 = "[(''clip10.mp4'', ?e10), (''clip1.mp4'', ?e1)]"
  have call: "?ydl (download_opts ?cfg ''720''
                 (path_join (DOWNLOAD_DIR ?cfg)
                    (resolve_filename 1000 (Some ''clip1'') @ ''.%(ext)s'')))
               ''https://example.org/v'' True [(''clip10.mp4'', ?e10)] = (Inr Map.empty, ?dir1)"
    by simp
  have found: "find (\<lambda>f. startswith f (resolve_filename 1000 (Some ''clip1''))) (listdir ?dir1)
                 = Some ''clip10.mp4''"
    by (simp add: listdir_def resolve_filename_def)
  have entry: "map_of ?dir1 ''clip10.mp4'' = Some ?e10" by simp
  have size: "st_size ?e10 = 0" by simp
  have rm: "unlink_error ?e10 = None" by simp
  from download_empty [where ydl = ?ydl and dir = "[(''clip10.mp4'', ?e10)]", OF call found entry size rm]
  show ?thesis by simp
qed

section \<open>Facts about the pool\<close>

lemma count_list_update:
  "i < length xs \<Longrightarrow>
   count_list (xs[i := b]) a + (if xs ! i = a then 1 else 0) =
   count_list xs a + (if b = a then 1 else 0)"
proof (induction xs arbitrary: i)
  case Nil
  then show ?case by simp
next
  case (Cons x xs)
  show ?case
  proof (cases i)
    case 0
    then show ?thesis by simp
  next
    case (Suc j)
    with Cons.prems have "j < length xs" by simp
    from Cons.IH [OF this] Suc show ?thesis by (auto split: if_splits)
  qed
qed

lemma count_list_zero: "(\<forall>x\<in>set xs. x \<noteq> a) \<Longrightarrow> count_list xs a = 0"
  by (induction xs) auto

lemma pool_inv_startup: "pool_inv cfg (startup cfg dir)"
  by (simp add: pool_inv_def startup_def)

lemma pool_inv_step:
  assumes "pool_inv cfg s" and "step cfg e s = Some s'"
  shows "pool_inv cfg s'"
proof (cases e)
  case Arrive
  with assms show ?thesis by (auto simp: pool_inv_def)
next
  case (Grant i)
  with assms have en: "i < length (tasks s)" "tasks s ! i = Waiting" "0 < semaphore s"
    and s': "s' = s\<lparr>semaphore := semaphore s - 1, tasks := (tasks s)[i := Granted]\<rparr>"
    by (auto simp: in_phase_def split: if_splits)
  from count_list_update [OF en(1), of Granted Granted] en(2)
  have g: "count_list ((tasks s)[i := Granted]) Granted = count_list (tasks s) Granted + 1" by simp
  from count_list_update [OF en(1), of Granted Running] en(2)
  have r: "count_list ((tasks s)[i := Granted]) Running = count_list (tasks s) Running" by simp
  from assms(1) en(3) g r show ?thesis by (simp add: pool_inv_def s')
next
  case (Timeout i)
  with assms have en: "i < length (tasks s)" "tasks s ! i = Waiting"
    and s': "s' = s\<lparr>tasks := (tasks s)[i := Finished server_busy]\<rparr>"
    by (auto simp: in_phase_def split: if_splits)
  from count_list_update [OF en(1), of "Finished server_busy" Granted] en(2)
  have g: "count_list ((tasks s)[i := Finished server_busy]) Granted = count_list (tasks s) Granted"
    by simp
  from count_list_update [OF en(1), of "Finished server_busy" Running] en(2)
  have r: "count_list ((tasks s)[i := Finished server_busy]) Running = count_list (tasks s) Running"
    by simp
  from assms(1) g r show ?thesis by (simp add: pool_inv_def s')
next
  case (Start i)
  with assms have en: "i < length (tasks s)" "tasks s ! i = Granted"
    and s': "s' = s\<lparr>active_downloads := active_downloads s + 1, tasks := (tasks s)[i := Running]\<rparr>"
    by (auto simp: in_phase_def split: if_splits)
  from count_list_update [OF en(1), of Running Granted] en(2)
  have g: "count_list ((tasks s)[i := Running]) Granted + 1 = count_list (tasks s) Granted" by simp
  from count_list_update [OF en(1), of Running Running] en(2)
  have r: "count_list ((tasks s)[i := Running]) Running = count_list (tasks s) Running + 1" by simp
  from assms(1) g r show ?thesis by (simp add: pool_inv_def s')
next
  case (Finish i outcome dir)
  let ?f = "Finished (job_response cfg outcome)"
  from Finish assms have en: "i < length (tasks s)" "tasks s ! i = Running"
    and s': "s' = s\<lparr>active_downloads := active_downloads s - 1, semaphore := semaphore s + 1,
                    downloads := dir, tasks := (tasks s)[i := ?f]\<rparr>"
    by (auto simp: in_phase_def split: if_splits)
  from count_list_update [OF en(1), of ?f Granted] en(2)
  have g: "count_list ((tasks s)[i := ?f]) Granted = count_list (tasks s) Granted" by simp
  from count_list_update [OF en(1), of ?f Running] en(2)
  have r: "count_list ((tasks s)[i := ?f]) Running + 1 = count_list (tasks s) Running" by simp
  from assms(1) g r show ?thesis by (simp add: pool_inv_def s')
qed

lemma pool_inv_run:
  "pool_inv cfg s \<Longrightarrow> run cfg es s = Some s' \<Longrightarrow> pool_inv cfg s'"
proof (induction es arbitrary: s)
  case Nil
  then show ?case by simp
next
  case (Cons e es)
  then show ?case
    by (auto split: option.splits dest: pool_inv_step)
qed

lemma download_video_schedule:
  fixes t :: system
  assumes "download_video cfg ydl now req t = (resp, t')"
    and "download cfg ydl now (req_url req) (req_quality req) (req_filename req) (downloads t)
           = (outcome, dir')"
  shows "run cfg (if semaphore t = 0
                  then [Arrive, Timeout (length (tasks t))]
                  else [Arrive, Grant (length (tasks t)), Start (length (tasks t)),
                        Finish (length (tasks t)) outcome dir']) t
         = Some (t'\<lparr>tasks := tasks t @ [Finished resp]\<rparr>)"
  using assms
  by (auto simp: download_video_def Let_def in_phase_def nth_append)

section \<open>Facts about the wait\<close>

lemma waiting_iff: "i \<in> set (waiting s) \<longleftrightarrow> in_phase (sys s) i Waiting"
  by (auto simp: waiting_def in_phase_def)

lemma wait_inv_startup: "wait_inv (timed_startup cfg dir t0)"
  by (simp add: wait_inv_def timed_startup_def startup_def waiting_def)

lemma timed_step_cases:
  assumes "timed_step cfg ev s = Some s'"
  obtains (elapse) d where "ev = Elapse d" "0 \<le> d"
      "\<forall>i\<in>set (waiting s). clock s + d \<le> deadline s i" "s' = s\<lparr>clock := clock s + d\<rparr>"
    | (arrive) "ev = Act Arrive"
      "s' = s\<lparr>sys := (sys s)\<lparr>tasks := tasks (sys s) @ [Waiting]\<rparr>, arrival := arrival s @ [clock s]\<rparr>"
    | (timeout) i where "ev = Act (Timeout i)" "in_phase (sys s) i Waiting" "deadline s i \<le> clock s"
      "s' = s\<lparr>sys := (sys s)\<lparr>tasks := (tasks (sys s))[i := Finished server_busy]\<rparr>\<rparr>"
    | (other) e t where "ev = Act e" "e \<noteq> Arrive" "\<forall>i. e \<noteq> Timeout i" "step cfg e (sys s) = Some t"
      "s' = s\<lparr>sys := t\<rparr>"
proof (cases ev)
  case (Elapse d)
  with assms show ?thesis
    by (intro elapse [of d]) (auto simp: list_all_iff split: if_splits)
next
  case (Act e)
  show ?thesis
  proof (cases e)
    case Arrive
    with Act assms show ?thesis by (intro arrive) auto
  next
    case (Timeout i)
    with Act assms show ?thesis by (intro timeout [of i]) (auto split: if_splits)
  next
    case (Grant i)
    with Act assms show ?thesis by (intro other [of e]) (auto split: if_splits)
  next
    case (Start i)
    with Act assms show ?thesis by (intro other [of e]) (auto split: if_splits)
  next
    case (Finish i outcome dir)
    with Act assms show ?thesis by (intro other [of e]) (auto split: if_splits)
  qed
qed

lemma wait_inv_iff:
  "wait_inv s \<longleftrightarrow>
     length (arrival s) = length (tasks (sys s)) \<and>
     (\<forall>i<length (tasks (sys s)).
        arrival s ! i \<le> clock s \<and>
        (tasks (sys s) ! i = Waiting \<longrightarrow> clock s \<le> arrival s ! i + acquire_timeout))"
  by (auto simp: wait_inv_def list_all_iff waiting_def deadline_def all_set_conv_all_nth)

lemma step_waiting:
  assumes "step cfg e s = Some t" and "e \<noteq> Arrive"
  shows "length (tasks t) = length (tasks s) \<and>
         (\<forall>j<length (tasks s). tasks t ! j = Waiting \<longrightarrow> tasks s ! j = Waiting)"
  using assms by (cases e) (auto simp: in_phase_def nth_list_update split: if_splits)

lemma wait_inv_step:
  assumes "wait_inv s" and "timed_step cfg ev s = Some s'"
  shows "wait_inv s'"
  using assms(2)
proof (cases rule: timed_step_cases)
  case (elapse d)
  with assms(1) show ?thesis
    by (auto simp: wait_inv_iff waiting_iff in_phase_def deadline_def intro: order_trans)
next
  case arrive
  have "(0::rat) \<le> acquire_timeout" by (simp add: acquire_timeout_def)
  with assms(1) arrive show ?thesis
    by (auto simp: wait_inv_iff nth_append)
next
  case (timeout i)
  with assms(1) show ?thesis
    by (auto simp: wait_inv_iff in_phase_def nth_list_update split: if_splits)
next
  case (other e t)
  from step_waiting [OF other(4,2)] assms(1) other(5) show ?thesis
    by (auto simp: wait_inv_iff)
qed

lemma wait_inv_run:
  "wait_inv s \<Longrightarrow> timed_run cfg es s = Some s' \<Longrightarrow> wait_inv s'"
proof (induction es arbitrary: s)
  case Nil
  then show ?case by simp
next
  case (Cons e es)
  then show ?case by (auto split: option.splits dest: wait_inv_step)
qed

lemma arrival_step:
  assumes "timed_step cfg ev s = Some s'"
  shows "prefix (arrival s) (arrival s')"
  using assms by (cases rule: timed_step_cases) auto

lemma arrival_run:
  "timed_run cfg es s = Some s' \<Longrightarrow> prefix (arrival s) (arrival s')"
proof (induction es arbitrary: s)
  case Nil
  then show ?case by simp
next
  case (Cons e es)
  then show ?case
    by (auto split: option.splits dest!: arrival_step intro: prefix_order.trans)
qed

lemma timed_run_untimed:
  "timed_run cfg es s = Some s' \<Longrightarrow> run cfg (acts es) (sys s) = Some (sys s')"
proof (induction es arbitrary: s)
  case Nil
  then show ?case by simp
next
  case (Cons ev es)
  from Cons.prems obtain s1 where s1: "timed_step cfg ev s = Some s1"
    and r: "timed_run cfg es s1 = Some s'"
    by (auto split: option.splits)
  from s1 have "run cfg (acts (ev # es)) (sys s) = run cfg (acts es) (sys s1)"
    by (cases rule: timed_step_cases) (auto simp: in_phase_def)
  with Cons.IH [OF r] show ?case by simp
qed

lemma leave_wait:
  assumes "wait_inv t" and "in_phase (sys t) i Waiting"
    and "timed_step cfg ev t = Some t'" and "\<not> in_phase (sys t') i Waiting"
  shows "(ev = Act (Grant i) \<and> 0 < semaphore (sys t) \<and> clock t' = clock t \<and>
          sys t' = (sys t)\<lparr>semaphore := semaphore (sys t) - 1,
                           tasks := (tasks (sys t))[i := Granted]\<rparr>) \<or>
         (ev = Act (Timeout i) \<and> clock t = arrival t ! i + acquire_timeout \<and> clock t' = clock t \<and>
          sys t' = (sys t)\<lparr>tasks := (tasks (sys t))[i := Finished server_busy]\<rparr>)"
  using assms(3)
proof (cases rule: timed_step_cases)
  case (elapse d)
  with assms(2,4) show ?thesis by (simp add: in_phase_def)
next
  case arrive
  with assms(2,4) show ?thesis by (simp add: in_phase_def nth_append)
next
  case (timeout j)
  with assms(2,4) have "j = i" by (auto simp: in_phase_def nth_list_update split: if_splits)
  moreover from assms(1,2) have "clock t \<le> arrival t ! i + acquire_timeout"
    by (simp add: wait_inv_iff in_phase_def)
  ultimately show ?thesis using timeout by (simp add: deadline_def)
next
  case (other e u)
  show ?thesis
  proof (cases e)
    case Arrive
    with other show ?thesis by simp
  next
    case (Timeout j)
    with other show ?thesis by simp
  next
    case (Grant j)
    with other assms(2,4) have "j = i"
      by (auto simp: in_phase_def nth_list_update split: if_splits)
    with other Grant show ?thesis by (auto split: if_splits)
  next
    case (Start j)
    with other assms(2,4) show ?thesis
      by (auto simp: in_phase_def nth_list_update split: if_splits)
  next
    case (Finish j outcome dir)
    with other assms(2,4) show ?thesis
      by (auto simp: in_phase_def nth_list_update split: if_splits)
  qed
qed

lemma waiting_timeout:
  assumes "in_phase (sys s) i Waiting"
  shows "length (waiting (s\<lparr>clock := c, sys := (sys s)\<lparr>tasks := (tasks (sys s))[i := Finished r]\<rparr>\<rparr>))
           < length (waiting s)"
proof -
  let ?n = "length (tasks (sys s))"
  from assms have "filter (\<lambda>j. (tasks (sys s))[i := Finished r] ! j = Waiting) [0..<?n]
          = filter (\<lambda>j. j \<noteq> i) (filter (\<lambda>j. tasks (sys s) ! j = Waiting) [0..<?n])"
    unfolding filter_filter
    by (intro filter_cong) (auto simp: in_phase_def nth_list_update split: if_splits)
  moreover from assms have "i \<in> set (filter (\<lambda>j. tasks (sys s) ! j = Waiting) [0..<?n])"
    by (simp add: in_phase_def)
  then have "length (filter (\<lambda>j. j \<noteq> i) (filter (\<lambda>j. tasks (sys s) ! j = Waiting) [0..<?n]))
               < length (filter (\<lambda>j. tasks (sys s) ! j = Waiting) [0..<?n])"
    by (rule length_filter_less) simp
  ultimately show ?thesis by (simp add: waiting_def)
qed

lemma time_passes:
  assumes "wait_inv s" and "0 \<le> d"
  shows "\<exists>es s'. timed_run cfg es s = Some s' \<and> clock s' = clock s + d"
  using assms
proof (induction "length (waiting s)" arbitrary: s d rule: less_induct)
  case less
  let ?late = "filter (\<lambda>i. deadline s i < clock s + d) (waiting s)"
  show ?case
  proof (cases "?late = []")
    case True
    then have "\<forall>i\<in>set (waiting s). clock s + d \<le> deadline s i"
      by (auto simp: filter_empty_conv not_less)
    with less.prems have "timed_run cfg [Elapse d] s = Some (s\<lparr>clock := clock s + d\<rparr>)"
      by (simp add: list_all_iff)
    then show ?thesis
      by (intro exI [of _ "[Elapse d]"] exI [of _ "s\<lparr>clock := clock s + d\<rparr>"]) simp
  next
    case False
    define m where "m = Min (deadline s ` set ?late)"
    from False have "set ?late \<noteq> {}" by (simp only: set_empty not_False_eq_True)
    then have "deadline s ` set ?late \<noteq> {}" by (simp only: image_is_empty not_False_eq_True)
    then have "m \<in> deadline s ` set ?late"
      unfolding m_def by (intro Min_in) simp_all
    then obtain i where i: "i \<in> set (waiting s)" "deadline s i < clock s + d" "deadline s i = m"
      by auto
    have least: "m \<le> deadline s j" if "j \<in> set (waiting s)" for j
    proof (cases "deadline s j < clock s + d")
      case True
      with that have "deadline s j \<in> deadline s ` set ?late" by auto
      then show ?thesis unfolding m_def by (intro Min_le) auto
    next
      case False
      with i show ?thesis by simp
    qed
    from less.prems(1) i(1,3) have now: "clock s \<le> m"
      by (auto simp: wait_inv_def list_all_iff)
    let ?s1 = "s\<lparr>clock := m\<rparr>"
    let ?s2 = "s\<lparr>clock := m, sys := (sys s)\<lparr>tasks := (tasks (sys s))[i := Finished server_busy]\<rparr>\<rparr>"
    from least now have e: "timed_step cfg (Elapse (m - clock s)) s = Some ?s1"
      by (simp add: list_all_iff)
    from i have t: "timed_step cfg (Act (Timeout i)) ?s1 = Some ?s2"
      by (simp add: waiting_iff deadline_def)
    have inv2: "wait_inv ?s2"
      by (rule wait_inv_step [OF wait_inv_step [OF less.prems(1) e] t])
    from i(1) have fewer: "length (waiting ?s2) < length (waiting s)"
      by (intro waiting_timeout) (simp add: waiting_iff)
    from i(2,3) have "0 \<le> clock s + d - m" by simp
    from less.hyps [OF fewer inv2 this] obtain es s'
      where "timed_run cfg es ?s2 = Some s'" "clock s' = clock s + d"
      by auto
    with e t show ?thesis
      by (intro exI [of _ "Elapse (m - clock s) # Act (Timeout i) # es"] exI [of _ s']) simp
  qed
qed

lemma wait_bound:
  assumes "wait_inv t" and "in_phase (sys t) i Waiting"
  shows "arrival t ! i \<le> clock t \<and> clock t \<le> arrival t ! i + 5"
  using assms by (simp add: wait_inv_iff in_phase_def acquire_timeout_def)

lemma wait_over:
  assumes "wait_inv t" and "in_phase (sys t) i Waiting"
    and "timed_run cfg es t = Some t'" and "arrival t ! i + 5 < clock t'"
  shows "\<not> in_phase (sys t') i Waiting"
proof
  assume w: "in_phase (sys t') i Waiting"
  from assms(1,2) have "i < length (arrival t)" by (simp add: wait_inv_iff in_phase_def)
  with arrival_run [OF assms(3)] have "arrival t' ! i = arrival t ! i"
    by (auto simp: prefix_def nth_append)
  with wait_bound [OF wait_inv_run [OF assms(1,3)] w] assms(4) show False by simp
qed

lemma wait_deadline:
  assumes "in_phase (sys t) i Waiting" and "clock t = arrival t ! i + 5"
  shows "timed_step cfg (Act (Timeout i)) t =
           Some (t\<lparr>sys := (sys t)\<lparr>tasks := (tasks (sys t))[i := Finished server_busy]\<rparr>\<rparr>) \<and>
         (\<forall>d>0. timed_step cfg (Elapse d) t = None)"
proof -
  from assms(1) have i: "i \<in> set (waiting t)" by (simp add: waiting_iff)
  have "\<not> list_all (\<lambda>i. clock t + d \<le> deadline t i) (waiting t)" if "0 < d" for d
  proof -
    from assms(2) that have "\<not> clock t + d \<le> deadline t i"
      by (simp add: deadline_def acquire_timeout_def)
    with i show ?thesis by (auto simp: list_all_iff)
  qed
  with assms show ?thesis by (simp add: deadline_def acquire_timeout_def)
qed

lemma finished_step:
  assumes "in_phase (sys t) i (Finished r)" and "timed_step cfg ev t = Some t'"
  shows "in_phase (sys t') i (Finished r)"
  using assms(2)
proof (cases rule: timed_step_cases)
  case (elapse d)
  with assms(1) show ?thesis by (simp add: in_phase_def)
next
  case arrive
  with assms(1) show ?thesis by (simp add: in_phase_def nth_append)
next
  case (timeout j)
  with assms(1) show ?thesis by (auto simp: in_phase_def nth_list_update)
next
  case (other e u)
  with assms(1) show ?thesis
    by (cases e) (auto simp: in_phase_def nth_list_update split: if_splits)
qed

lemma ungranted_step:
  assumes "in_phase (sys t) i Waiting" and "timed_step cfg ev t = Some t'"
    and "ev \<noteq> Act (Grant i)"
  shows "in_phase (sys t') i Waiting \<or> in_phase (sys t') i (Finished server_busy)"
  using assms(2)
proof (cases rule: timed_step_cases)
  case (elapse d)
  with assms(1) show ?thesis by (simp add: in_phase_def)
next
  case arrive
  with assms(1) show ?thesis by (simp add: in_phase_def nth_append)
next
  case (timeout j)
  with assms(1) show ?thesis by (auto simp: in_phase_def nth_list_update)
next
  case (other e u)
  with assms(1,3) show ?thesis
    by (cases e) (auto simp: in_phase_def nth_list_update split: if_splits)
qed

lemma ungranted_run:
  "in_phase (sys t) i Waiting \<or> in_phase (sys t) i (Finished server_busy) \<Longrightarrow>
   timed_run cfg es t = Some t' \<Longrightarrow> Act (Grant i) \<notin> set es \<Longrightarrow>
   in_phase (sys t') i Waiting \<or> in_phase (sys t') i (Finished server_busy)"
proof (induction es arbitrary: t)
  case Nil
  then show ?case by simp
next
  case (Cons ev es)
  from Cons.prems(2) obtain t1 where t1: "timed_step cfg ev t = Some t1"
    and r: "timed_run cfg es t1 = Some t'"
    by (auto split: option.splits)
  from Cons.prems(3) have ev: "ev \<noteq> Act (Grant i)" and es: "Act (Grant i) \<notin> set es" by auto
  from Cons.prems(1) have "in_phase (sys t1) i Waiting \<or> in_phase (sys t1) i (Finished server_busy)"
  proof
    assume "in_phase (sys t) i Waiting"
    then show ?thesis by (rule ungranted_step [OF _ t1 ev])
  next
    assume "in_phase (sys t) i (Finished server_busy)"
    then show ?thesis by (simp add: finished_step [OF _ t1])
  qed
  then show ?case by (rule Cons.IH [OF _ r es])
qed

section \<open>Facts about the cleanup\<close>

lemma cleanup_file_filter:
  assumes "distinct (map fst dir)"
  shows "cleanup_file now dir f =
           filter (\<lambda>p. fst p = f \<longrightarrow> \<not> (regular (snd p) \<and> 600 < now - st_mtime (snd p) \<and> unlink_error (snd p) = None)) dir"
proof (cases "map_of dir f")
  case None
  then have "\<forall>p\<in>set dir. fst p \<noteq> f"
    by (auto simp: map_of_eq_None_iff)
  then have "filter (\<lambda>p. fst p = f \<longrightarrow> \<not> (regular (snd p) \<and> 600 < now - st_mtime (snd p) \<and> unlink_error (snd p) = None)) dir = dir"
    by (auto intro: filter_True)
  with None show ?thesis
    by (simp add: cleanup_file_def cleanup_try_def isfile_def)
next
  case (Some e)
  have same: "snd p = e" if "p \<in> set dir" "fst p = f" for p
  proof -
    from that have "(f, snd p) \<in> set dir" by (cases p) auto
    with assms have "map_of dir f = Some (snd p)" by simp
    with Some show ?thesis by simp
  qed
  show ?thesis
  proof (cases "regular e \<and> 600 < now - st_mtime e \<and> unlink_error e = None")
    case True
    have "filter (\<lambda>p. fst p = f \<longrightarrow> \<not> (regular (snd p) \<and> 600 < now - st_mtime (snd p) \<and> unlink_error (snd p) = None)) dir
          = filter (\<lambda>p. fst p \<noteq> f) dir"
      using True same by (intro filter_cong) auto
    with Some True show ?thesis
      by (simp add: cleanup_file_def cleanup_try_def isfile_def getmtime_def unlink_def)
  next
    case False
    have "filter (\<lambda>p. fst p = f \<longrightarrow> \<not> (regular (snd p) \<and> 600 < now - st_mtime (snd p) \<and> unlink_error (snd p) = None)) dir = dir"
      using False same by (intro filter_True) auto
    with Some False show ?thesis
      by (auto simp: cleanup_file_def cleanup_try_def isfile_def getmtime_def unlink_def
               split: option.splits)
  qed
qed

lemma cleanup_fold_filter:
  "distinct (map fst dir) \<Longrightarrow>
   foldl (cleanup_file now) dir fs =
     filter (\<lambda>p. fst p \<in> set fs \<longrightarrow> \<not> (regular (snd p) \<and> 600 < now - st_mtime (snd p) \<and> unlink_error (snd p) = None)) dir"
proof (induction fs arbitrary: dir)
  case Nil
  then show ?case by simp
next
  case (Cons f fs)
  let ?gone = "\<lambda>p. regular (snd p) \<and> 600 < now - st_mtime (snd p) \<and> unlink_error (snd p) = None"
  let ?dir1 = "filter (\<lambda>p. fst p = f \<longrightarrow> \<not> ?gone p) dir"
  from Cons.prems have d1: "distinct (map fst ?dir1)" by (simp add: distinct_map_filter)
  have "foldl (cleanup_file now) dir (f # fs) = foldl (cleanup_file now) ?dir1 fs"
    by (simp add: cleanup_file_filter [OF Cons.prems])
  also have "\<dots> = filter (\<lambda>p. fst p \<in> set fs \<longrightarrow> \<not> ?gone p) ?dir1"
    by (rule Cons.IH [OF d1])
  also have "\<dots> = filter (\<lambda>p. fst p \<in> set (f # fs) \<longrightarrow> \<not> ?gone p) dir"
    by (auto intro: filter_cong)
  finally show ?case .
qed

lemma cleanup_loop_append:
  "cleanup_loop (a @ b) dir = cleanup_loop b (cleanup_loop a dir)"
  by (induction a dir rule: cleanup_loop.induct) auto

section \<open>The claims\<close>

subsection \<open>Claim C1\<close>

text \<open>
  Claim C1. A call of \<^verbatim>\<open>download_video\<close> leaves the semaphore and \<^verbatim>\<open>active_downloads\<close> at
  their values from before the call, whatever the engine, the request and the directory
  are: denial takes no slot, and every other exit passes through the \<^verbatim>\<open>finally\<close> block.
  In every state that a schedule of interleaved requests reaches from start-up, the
  counter is the number of running jobs and lies between 0 and \<^verbatim>\<open>MAX_CONCURRENT\<close>, the free
  slots and the requests holding one add up to \<^verbatim>\<open>MAX_CONCURRENT\<close>, and when no request
  holds a slot the pool is full and the counter is 0.
\<close>

theorem download_video_pairs_acquire_and_release:
  "semaphore (snd (download_video cfg ydl now req s)) = semaphore s \<and>
   active_downloads (snd (download_video cfg ydl now req s)) = active_downloads s \<and>
   (\<forall>t. run cfg es (startup cfg dir) = Some t \<longrightarrow>
      0 \<le> active_downloads t \<and> active_downloads t \<le> int (MAX_CONCURRENT cfg) \<and>
      active_downloads t = int (count_list (tasks t) Running) \<and>
      semaphore t + count_list (tasks t) Granted + count_list (tasks t) Running
        = MAX_CONCURRENT cfg \<and>
      ((\<forall>p\<in>set (tasks t). p \<noteq> Granted \<and> p \<noteq> Running) \<longrightarrow>
         semaphore t = MAX_CONCURRENT cfg \<and> active_downloads t = 0))"
proof -
  have "0 \<le> active_downloads t \<and> active_downloads t \<le> int (MAX_CONCURRENT cfg) \<and>
      active_downloads t = int (count_list (tasks t) Running) \<and>
      semaphore t + count_list (tasks t) Granted + count_list (tasks t) Running
        = MAX_CONCURRENT cfg \<and>
      ((\<forall>p\<in>set (tasks t). p \<noteq> Granted \<and> p \<noteq> Running) \<longrightarrow>
         semaphore t = MAX_CONCURRENT cfg \<and> active_downloads t = 0)"
    if r: "run cfg es (startup cfg dir) = Some t" for t
  proof -
    from pool_inv_run [OF pool_inv_startup r]
    have inv: "semaphore t + count_list (tasks t) Granted + count_list (tasks t) Running
                 = MAX_CONCURRENT cfg"
      and act: "active_downloads t = int (count_list (tasks t) Running)"
      by (simp_all add: pool_inv_def)
    have idle: "semaphore t = MAX_CONCURRENT cfg \<and> active_downloads t = 0"
      if q: "\<forall>p\<in>set (tasks t). p \<noteq> Granted \<and> p \<noteq> Running"
    proof -
      from q have "count_list (tasks t) Granted = 0" by (intro count_list_zero) auto
      moreover from q have "count_list (tasks t) Running = 0" by (intro count_list_zero) auto
      ultimately show ?thesis using inv act by simp
    qed
    from inv act idle show ?thesis by auto
  qed
  then show ?thesis
    by (simp only: download_video_semaphore download_video_active) blast
qed

theorem download_video_pairs_acquire_and_release_witness:
  "run \<lparr>DOWNLOAD_DIR = ''/downloads'', MAX_CONCURRENT = 1, MAX_DURATION = 600,
         MAX_FILE_SIZE_MB = 100\<rparr>
       [Arrive, Arrive, Grant 0, Start 0, Timeout 1]
       (startup \<lparr>DOWNLOAD_DIR = ''/downloads'', MAX_CONCURRENT = 1, MAX_DURATION = 600,
                  MAX_FILE_SIZE_MB = 100\<rparr> [])
     = Some \<lparr>semaphore = 0, active_downloads = 1, downloads = [],
             tasks = [Running, Finished server_busy]\<rparr> \<and>
   (0::int) \<le> 1 \<and> (1::int) \<le> int 1 \<and>
   run \<lparr>DOWNLOAD_DIR = ''/downloads'', MAX_CONCURRENT = 1, MAX_DURATION = 600,
         MAX_FILE_SIZE_MB = 100\<rparr>
       [Arrive, Arrive, Grant 0, Start 0, Timeout 1, Finish 0 (Inl ''ERROR: network unreachable'') []]
       (startup \<lparr>DOWNLOAD_DIR = ''/downloads'', MAX_CONCURRENT = 1, MAX_DURATION = 600,
                  MAX_FILE_SIZE_MB = 100\<rparr> [])
     = Some \<lparr>semaphore = 1, active_downloads = 0, downloads = [],
             tasks = [Finished (Inl (400, ''ERROR: network unreachable'')), Finished server_busy]\<rparr>"
proof -
  let ?cfg = "\<lparr>DOWNLOAD_DIR = ''/downloads'', MAX_CONCURRENT = 1, MAX_DURATION = 600,
               MAX_FILE_SIZE_MB = 100\<rparr>"
  let ?t = "\<lparr>semaphore = 0, active_downloads = 1, downloads = [],
             tasks = [Running, Finished server_busy]\<rparr>"
  let ?u = "\<lparr>semaphore = 1, active_downloads = 0, downloads = [],
             tasks = [Finished (Inl (400, ''ERROR: network unreachable'')), Finished server_busy]\<rparr>"
  let ?ydl = "\<lambda>(opts::dict) (url::string) (dl::bool) (dir::directory).
                (Inl ''ERROR: network unreachable'' :: string + dict, dir)"
  let ?req = "\<lparr>req_url = ''https://example.org/v'', req_quality = ''720'', req_filename = None\<rparr>"
  let ?s = "\<lparr>semaphore = 1, active_downloads = 0, downloads = []\<rparr>"
  have p: "parse_error 600 ''ERROR: network unreachable'' = ''ERROR: network unreachable''"
    by (simp add: parse_error_def lower_eval)
  have r: "run ?cfg [Arrive, Arrive, Grant 0, Start 0, Timeout 1] (startup ?cfg []) = Some ?t"
    by (simp add: startup_def in_phase_def)
  have r2: "run ?cfg [Arrive, Arrive, Grant 0, Start 0, Timeout 1,
                      Finish 0 (Inl ''ERROR: network unreachable'') []] (startup ?cfg []) = Some ?u"
    by (simp add: startup_def in_phase_def job_response_def p)
  from download_video_pairs_acquire_and_release
         [of ?cfg ?ydl 0 ?req ?s "[Arrive, Arrive, Grant 0, Start 0, Timeout 1]" "[]"] r
  have "0 \<le> active_downloads ?t \<and> active_downloads ?t \<le> int (MAX_CONCURRENT ?cfg)" by blast
  with r r2 show ?thesis by simp
qed

subsection \<open>Claim C2\<close>

text \<open>
  Claim C2. Take any state \<open>t\<close> that a timed schedule reaches from start-up and any request
  \<open>i\<close> that is waiting for a slot in \<open>t\<close>. The schedule is one of the interleaved model, so
  the bounds of claim C1 hold in \<open>t\<close>. Then:
  \<^item> the request has waited for at most 5 seconds;
  \<^item> in every state reached later than 5 seconds after its arrival the request is no longer
    waiting, and if no slot was granted to it on the way, it has ended with status 429 and
    the detail \<^verbatim>\<open>SERVER_BUSY:Too many concurrent downloads. Try again later.\<close>;
  \<^item> such later states exist: from \<open>t\<close> the clock can advance by any amount, so the bound on
    the wait does not come from a clock that stops;
  \<^item> the request leaves the wait in one of two ways only: a slot is granted to it, or its
    wait times out exactly 5 seconds after its arrival; the time-out changes the phase of
    this request and nothing else: the semaphore, the counter, the directory and the other
    requests are as before, and the request never ran its job;
  \<^item> at the end of the 5 seconds the time-out is enabled and no time can pass before the
    request has left the wait.
  The detail begins with \<^verbatim>\<open>SERVER_BUSY:\<close>. Run without interleaving, \<^verbatim>\<open>download_video\<close> answers
  a request that finds no free slot with the same response, whatever the engine is, and
  leaves the state as it was.
\<close>

theorem download_video_server_busy:
  assumes "timed_run cfg es (timed_startup cfg dir t0) = Some t"
    and "in_phase (sys t) i Waiting"
  shows "run cfg (acts es) (startup cfg dir) = Some (sys t) \<and>
         arrival t ! i \<le> clock t \<and> clock t \<le> arrival t ! i + 5 \<and>
         (\<forall>es' t'. timed_run cfg es' t = Some t' \<and> arrival t ! i + 5 < clock t' \<longrightarrow>
            \<not> in_phase (sys t') i Waiting) \<and>
         (\<forall>es' t'. timed_run cfg es' t = Some t' \<and> arrival t ! i + 5 < clock t' \<and>
              Act (Grant i) \<notin> set es' \<longrightarrow>
            in_phase (sys t') i (Finished
              (Inl (429, ''SERVER_BUSY:Too many concurrent downloads. Try again later.'')))) \<and>
         (\<forall>d\<ge>0. \<exists>es' t'. timed_run cfg es' t = Some t' \<and> clock t' = clock t + d) \<and>
         (\<forall>ev t'. timed_step cfg ev t = Some t' \<and> \<not> in_phase (sys t') i Waiting \<longrightarrow>
            (ev = Act (Grant i) \<and> 0 < semaphore (sys t) \<and> clock t' = clock t \<and>
             sys t' = (sys t)\<lparr>semaphore := semaphore (sys t) - 1,
                              tasks := (tasks (sys t))[i := Granted]\<rparr>) \<or>
            (ev = Act (Timeout i) \<and> clock t = arrival t ! i + 5 \<and> clock t' = clock t \<and>
             sys t' = (sys t)\<lparr>tasks := (tasks (sys t))[i := Finished
               (Inl (429, ''SERVER_BUSY:Too many concurrent downloads. Try again later.''))]\<rparr>)) \<and>
         (clock t = arrival t ! i + 5 \<longrightarrow>
            timed_step cfg (Act (Timeout i)) t =
              Some (t\<lparr>sys := (sys t)\<lparr>tasks := (tasks (sys t))[i := Finished
                (Inl (429, ''SERVER_BUSY:Too many concurrent downloads. Try again later.''))]\<rparr>\<rparr>) \<and>
            (\<forall>d>0. timed_step cfg (Elapse d) t = None)) \<and>
         startswith ''SERVER_BUSY:Too many concurrent downloads. Try again later.'' ''SERVER_BUSY:'' \<and>
         (semaphore s = 0 \<longrightarrow>
            download_video cfg ydl now req s =
              (Inl (429, ''SERVER_BUSY:Too many concurrent downloads. Try again later.''), s))"
proof -
  have inv: "wait_inv t"
    by (rule wait_inv_run [OF wait_inv_startup assms(1)])
  note bound = wait_bound [OF inv assms(2)]
  have over: "\<forall>es' t'. timed_run cfg es' t = Some t' \<and> arrival t ! i + 5 < clock t' \<longrightarrow>
            \<not> in_phase (sys t') i Waiting"
    using wait_over [OF inv assms(2)] by blast
  have denied: "\<forall>es' t'. timed_run cfg es' t = Some t' \<and> arrival t ! i + 5 < clock t' \<and>
              Act (Grant i) \<notin> set es' \<longrightarrow>
            in_phase (sys t') i (Finished
              (Inl (429, ''SERVER_BUSY:Too many concurrent downloads. Try again later.'')))"
  proof (intro allI impI)
    fix es' t'
    assume a: "timed_run cfg es' t = Some t' \<and> arrival t ! i + 5 < clock t' \<and>
              Act (Grant i) \<notin> set es'"
    with assms(2) have "in_phase (sys t') i Waiting \<or> in_phase (sys t') i (Finished server_busy)"
      by (intro ungranted_run [of t i cfg es' t']) simp_all
    moreover from a have "\<not> in_phase (sys t') i Waiting"
      by (intro wait_over [OF inv assms(2), of cfg es' t']) simp_all
    ultimately show "in_phase (sys t') i (Finished
              (Inl (429, ''SERVER_BUSY:Too many concurrent downloads. Try again later.'')))"
      by (simp add: server_busy_def)
  qed
  have untimed: "run cfg (acts es) (startup cfg dir) = Some (sys t)"
    using timed_run_untimed [OF assms(1)] by (simp add: timed_startup_def)
  have passes: "\<forall>d\<ge>0. \<exists>es' t'. timed_run cfg es' t = Some t' \<and> clock t' = clock t + d"
    using time_passes [OF inv] by blast
  have leave: "\<forall>ev t'. timed_step cfg ev t = Some t' \<and> \<not> in_phase (sys t') i Waiting \<longrightarrow>
            (ev = Act (Grant i) \<and> 0 < semaphore (sys t) \<and> clock t' = clock t \<and>
             sys t' = (sys t)\<lparr>semaphore := semaphore (sys t) - 1,
                              tasks := (tasks (sys t))[i := Granted]\<rparr>) \<or>
            (ev = Act (Timeout i) \<and> clock t = arrival t ! i + 5 \<and> clock t' = clock t \<and>
             sys t' = (sys t)\<lparr>tasks := (tasks (sys t))[i := Finished
               (Inl (429, ''SERVER_BUSY:Too many concurrent downloads. Try again later.''))]\<rparr>)"
    using leave_wait [OF inv assms(2)]
    unfolding server_busy_def acquire_timeout_def by blast
  have fire: "clock t = arrival t ! i + 5 \<longrightarrow>
            timed_step cfg (Act (Timeout i)) t =
              Some (t\<lparr>sys := (sys t)\<lparr>tasks := (tasks (sys t))[i := Finished
                (Inl (429, ''SERVER_BUSY:Too many concurrent downloads. Try again later.''))]\<rparr>\<rparr>) \<and>
            (\<forall>d>0. timed_step cfg (Elapse d) t = None)"
    using wait_deadline [OF assms(2)] unfolding server_busy_def by blast
  have pre: "startswith ''SERVER_BUSY:Too many concurrent downloads. Try again later.'' ''SERVER_BUSY:''"
    by simp
  have busy: "semaphore s = 0 \<longrightarrow>
            download_video cfg ydl now req s =
              (Inl (429, ''SERVER_BUSY:Too many concurrent downloads. Try again later.''), s)"
    by (simp add: download_video_def server_busy_def)
  from untimed bound over denied passes leave fire pre busy show ?thesis by (intro conjI) simp_all
qed

theorem download_video_server_busy_witness:
  "timed_run \<lparr>DOWNLOAD_DIR = ''/downloads'', MAX_CONCURRENT = 1, MAX_DURATION = 600,
               MAX_FILE_SIZE_MB = 100\<rparr>
     [Act Arrive, Act (Grant 0), Act (Start 0), Elapse 2, Act Arrive, Elapse 5]
     (timed_startup \<lparr>DOWNLOAD_DIR = ''/downloads'', MAX_CONCURRENT = 1, MAX_DURATION = 600,
                      MAX_FILE_SIZE_MB = 100\<rparr> [] 100)
   = Some \<lparr>sys = \<lparr>semaphore = 0, active_downloads = 1, downloads = [],
                  tasks = [Running, Waiting]\<rparr>,
           clock = 107, arrival = [100, 102]\<rparr> \<and>
   in_phase \<lparr>semaphore = 0, active_downloads = 1, downloads = [], tasks = [Running, Waiting]\<rparr>
     1 Waiting \<and>
   (107::rat) \<le> 102 + 5 \<and>
   timed_step \<lparr>DOWNLOAD_DIR = ''/downloads'', MAX_CONCURRENT = 1, MAX_DURATION = 600,
                MAX_FILE_SIZE_MB = 100\<rparr>
     (Act (Timeout 1))
     \<lparr>sys = \<lparr>semaphore = 0, active_downloads = 1, downloads = [], tasks = [Running, Waiting]\<rparr>,
       clock = 107, arrival = [100, 102]\<rparr>
   = Some \<lparr>sys = \<lparr>semaphore = 0, active_downloads = 1, downloads = [],
                  tasks = [Running, Finished
                    (Inl (429, ''SERVER_BUSY:Too many concurrent downloads. Try again later.''))]\<rparr>,
           clock = 107, arrival = [100, 102]\<rparr> \<and>
   timed_step \<lparr>DOWNLOAD_DIR = ''/downloads'', MAX_CONCURRENT = 1, MAX_DURATION = 600,
                MAX_FILE_SIZE_MB = 100\<rparr>
     (Elapse (1 / 1000))
     \<lparr>sys = \<lparr>semaphore = 0, active_downloads = 1, downloads = [], tasks = [Running, Waiting]\<rparr>,
       clock = 107, arrival = [100, 102]\<rparr>
   = None"
proof -
  let ?cfg = "\<lparr>DOWNLOAD_DIR = ''/downloads'', MAX_CONCURRENT = 1, MAX_DURATION = 600,
               MAX_FILE_SIZE_MB = 100\<rparr>"
  let ?u = "\<lparr>semaphore = 0, active_downloads = 1, downloads = [], tasks = [Running, Waiting]\<rparr>"
  let ?t = "\<lparr>sys = ?u, clock = 107, arrival = [100, 102]\<rparr>"
  let ?ydl = "\<lambda>(opts::dict) (url::string) (dl::bool) (dir::directory).
                (Inr Map.empty :: string + dict, dir)"
  let ?req = "\<lparr>req_url = ''https://example.org/v'', req_quality = ''720'', req_filename = None\<rparr>"
  let ?s = "\<lparr>semaphore = 0, active_downloads = 5, downloads = []\<rparr>"
  have r: "timed_run ?cfg [Act Arrive, Act (Grant 0), Act (Start 0), Elapse 2, Act Arrive, Elapse 5]
             (timed_startup ?cfg [] 100) = Some ?t"
    by (simp add: timed_startup_def startup_def in_phase_def waiting_def deadline_def
          acquire_timeout_def)
  have w: "in_phase (sys ?t) 1 Waiting" by (simp add: in_phase_def)
  have c: "clock ?t = arrival ?t ! 1 + 5" by simp
  note inst = download_video_server_busy [OF r w, where s = ?s and ydl = ?ydl and now = 0 and req = ?req]
  from inst have b: "clock ?t \<le> arrival ?t ! 1 + 5" by blast
  from inst c have f: "timed_step ?cfg (Act (Timeout 1)) ?t =
      Some (?t\<lparr>sys := (sys ?t)\<lparr>tasks := (tasks (sys ?t))[1 := Finished
                (Inl (429, ''SERVER_BUSY:Too many concurrent downloads. Try again later.''))]\<rparr>\<rparr>)"
    by blast
  from inst c have "\<forall>d>0. timed_step ?cfg (Elapse d) ?t = None" by blast
  moreover have "(0::rat) < 1 / 1000" by simp
  ultimately have e: "timed_step ?cfg (Elapse (1 / 1000)) ?t = None" by blast
  from r w b f e show ?thesis by simp
qed

subsection \<open>Claim C3\<close>

text \<open>
  Claim C3 says that the first message is returned exactly when the lowered text contains
  both \<^verbatim>\<open>does not pass filter\<close> and \<^verbatim>\<open>duration\<close>. The source returns it for a text with
  \<^verbatim>\<open>duration\<close> alone: the evaluation below is on such a text.
\<close>

theorem parse_error_duration_without_filter:
  "\<not> contains (lower ''ERROR: Unable to extract duration'') ''does not pass filter'' \<and>
   parse_error 600 ''ERROR: Unable to extract duration'' = ''DURATION_TOO_LONG:over 10 minutes''"
  by (simp add: parse_error_def lower_eval str_int_def str_nat.simps)

subsection \<open>Claim C4\<close>

text \<open>
  Claim C4. Whenever the lowered text contains \<^verbatim>\<open>duration\<close>, with or without
  \<^verbatim>\<open>does not pass filter\<close>, the parser returns the message with \<^verbatim>\<open>MAX_DURATION // 60\<close>
  minutes; when it contains \<^verbatim>\<open>does not pass filter\<close> and not \<^verbatim>\<open>duration\<close>, the parser
  returns \<^verbatim>\<open>DURATION_TOO_LONG:exceeds limit\<close>.
\<close>

theorem parse_error_duration_alone:
  "(contains (lower t) ''duration'' \<longrightarrow>
      parse_error md t = ''DURATION_TOO_LONG:over '' @ str_int (md div 60) @ '' minutes'') \<and>
   (contains (lower t) ''does not pass filter'' \<and> contains (lower t) ''duration'' \<longrightarrow>
      parse_error md t = ''DURATION_TOO_LONG:over '' @ str_int (md div 60) @ '' minutes'') \<and>
   (contains (lower t) ''does not pass filter'' \<and> \<not> contains (lower t) ''duration'' \<longrightarrow>
      parse_error md t = ''DURATION_TOO_LONG:exceeds limit'')"
  by (simp add: parse_error_def Let_def)

theorem parse_error_duration_alone_witness:
  "contains (lower ''ERROR: Unable to extract Duration'') ''duration'' \<and>
   \<not> contains (lower ''ERROR: Unable to extract Duration'') ''does not pass filter'' \<and>
   parse_error 600 ''ERROR: Unable to extract Duration'' = ''DURATION_TOO_LONG:over 10 minutes'' \<and>
   contains (lower ''video does not pass filter (!is_live), skipping ..'') ''does not pass filter'' \<and>
   \<not> contains (lower ''video does not pass filter (!is_live), skipping ..'') ''duration'' \<and>
   parse_error 600 ''video does not pass filter (!is_live), skipping ..'' = ''DURATION_TOO_LONG:exceeds limit''"
proof -
  have a: "contains (lower ''ERROR: Unable to extract Duration'') ''duration''"
    by (simp add: lower_eval)
  have b: "\<not> contains (lower ''ERROR: Unable to extract Duration'') ''does not pass filter''"
    by (simp add: lower_eval)
  have c: "contains (lower ''video does not pass filter (!is_live), skipping ..'') ''does not pass filter''"
    by (simp add: lower_eval)
  have d: "\<not> contains (lower ''video does not pass filter (!is_live), skipping ..'') ''duration''"
    by (simp add: lower_eval)
  have e: "str_int (600 div 60) = ''10''"
    by (simp add: str_int_def str_nat.simps)
  from a parse_error_duration_alone [of "''ERROR: Unable to extract Duration''" 600] e
  have f: "parse_error 600 ''ERROR: Unable to extract Duration'' = ''DURATION_TOO_LONG:over 10 minutes''"
    by simp
  from c d parse_error_duration_alone [of "''video does not pass filter (!is_live), skipping ..''" 600]
  have g: "parse_error 600 ''video does not pass filter (!is_live), skipping ..'' = ''DURATION_TOO_LONG:exceeds limit''"
    by simp
  from a b c d f g show ?thesis by simp
qed

subsection \<open>Claim C5\<close>

text \<open>
  Claim C5, as stated, fails in two cases: for an empty file under a negative limit, which
  is reported as empty, and for a file that \<^verbatim>\<open>os.unlink\<close> cannot remove, which stays in the
  directory while the error of \<^verbatim>\<open>os.unlink\<close> is reported. It holds in every other case. The
  request is admitted, the engine returns, and the first entry whose name starts with the
  resolved file name is not empty, is larger than \<^verbatim>\<open>MAX_FILE_SIZE_MB\<close> megabytes, and can be
  removed by \<^verbatim>\<open>os.unlink\<close>. Then the entry is gone from the directory, and the answer is
  status 400 with the detail \<^verbatim>\<open>FILE_TOO_LARGE:\<close>, the size in megabytes with one decimal,
  and \<^verbatim>\<open>MB\<close>: the error parser passes that text through unchanged. The decimal is within a
  twentieth of the measured size.
\<close>

theorem download_video_file_too_large:
  assumes "0 < semaphore s"
    and "ydl (download_opts cfg (req_quality req)
                (path_join (DOWNLOAD_DIR cfg)
                   (resolve_filename now (req_filename req) @ ''.%(ext)s'')))
             (req_url req) True (downloads s) = (Inr info, dir1)"
    and "find (\<lambda>f. startswith f (resolve_filename now (req_filename req))) (listdir dir1) = Some f"
    and "map_of dir1 f = Some e"
    and "st_size e \<noteq> 0"
    and "of_int (MAX_FILE_SIZE_MB cfg) < (of_nat (st_size e) :: rat) / (1024 * 1024)"
    and "unlink_error e = None"
  shows "download_video cfg ydl now req s =
           (Inl (400, ''FILE_TOO_LARGE:'' @ format_1f (of_nat (st_size e) / (1024 * 1024)) @ ''MB''),
            s\<lparr>downloads := filter (\<lambda>p. fst p \<noteq> f) dir1\<rparr>) \<and>
         f \<notin> set (listdir (filter (\<lambda>p. fst p \<noteq> f) dir1)) \<and>
         (\<exists>n. format_1f (of_nat (st_size e) / (1024 * 1024)) = str_nat (n div 10) @ ''.'' @ str_nat (n mod 10) \<and>
              \<bar>(of_nat (st_size e) :: rat) / (1024 * 1024) - of_nat n / 10\<bar> \<le> 1 / 20)"
proof -
  let ?mb = "(of_nat (st_size e) :: rat) / (1024 * 1024)"
  have nonneg: "0 \<le> ?mb" by simp
  have d: "download cfg ydl now (req_url req) (req_quality req) (req_filename req) (downloads s) =
          (Inl (''FILE_TOO_LARGE:'' @ format_1f ?mb @ ''MB''), filter (\<lambda>p. fst p \<noteq> f) dir1)"
    by (rule download_too_large [where ydl = ydl and url = "req_url req" and dir = "downloads s",
          OF assms(2-7)])
  have p: "parse_error (MAX_DURATION cfg) (''FILE_TOO_LARGE:'' @ format_1f ?mb @ ''MB'') =
             ''FILE_TOO_LARGE:'' @ format_1f ?mb @ ''MB''"
    by (rule parse_error_file_too_large [OF format_1f_numeric [OF nonneg] format_1f_nonempty])
  have first: "download_video cfg ydl now req s =
           (Inl (400, ''FILE_TOO_LARGE:'' @ format_1f ?mb @ ''MB''),
            s\<lparr>downloads := filter (\<lambda>p. fst p \<noteq> f) dir1\<rparr>)"
    using assms(1) d p by (simp add: download_video_def job_response_def Let_def)
  let ?n = "nat (round_half_even (?mb * 10))"
  from nonneg have "0 \<le> round_half_even (?mb * 10)" by (intro round_half_even_nonneg) simp
  then have n: "of_nat ?n = (of_int (round_half_even (?mb * 10)) :: rat)" by simp
  from round_half_even_near [of "?mb * 10"] n
  have "\<bar>?mb * 10 - of_nat ?n\<bar> \<le> 1 / 2" by simp
  then have near: "\<bar>?mb - of_nat ?n / 10\<bar> \<le> 1 / 20" by (simp add: abs_le_iff field_simps)
  from first near format_1f_nonneg [OF nonneg] show ?thesis
    by (auto simp: listdir_filter_gone)
qed

theorem download_video_file_too_large_witness:
  "0 < semaphore \<lparr>semaphore = 5, active_downloads = 0, downloads = []\<rparr> \<and>
   (110362624::nat) \<noteq> 0 \<and>
   (100::rat) < 110362624 / (1024 * 1024) \<and>
   download_video
     \<lparr>DOWNLOAD_DIR = ''/downloads'', MAX_CONCURRENT = 5, MAX_DURATION = 600, MAX_FILE_SIZE_MB = 100\<rparr>
     (\<lambda>opts url dl dir.
        (Inr Map.empty,
         dir @ [(''clip1.mp4'', \<lparr>regular = True, st_size = 110362624, st_mtime = 1000,
                                  unlink_error = None\<rparr>)]))
     1000
     \<lparr>req_url = ''https://example.org/v'', req_quality = ''720'', req_filename = Some ''clip1''\<rparr>
     \<lparr>semaphore = 5, active_downloads = 0, downloads = []\<rparr>
   = (Inl (400, ''FILE_TOO_LARGE:105.2MB''),
      \<lparr>semaphore = 5, active_downloads = 0, downloads = []\<rparr>)"
proof -
  let ?cfg = "\<lparr>DOWNLOAD_DIR = ''/downloads'', MAX_CONCURRENT = 5, MAX_DURATION = 600,
               MAX_FILE_SIZE_MB = 100\<rparr>"
  let ?e = "\<lparr>regular = True, st_size = 110362624, st_mtime = 1000, unlink_error = None\<rparr>"
  let ?ydl = "\<lambda>(opts::dict) (url::string) (dl::bool) (dir::directory).
                (Inr Map.empty :: string + dict, dir @ [(''clip1.mp4'', ?e)])"
  let ?req = "\<lparr>req_url = ''https://example.org/v'', req_quality = ''720'',
               req_filename = Some ''clip1''\<rparr>"
  let ?s = "\<lparr>semaphore = 5, active_downloads = 0, downloads = []\<rparr>"
  let ?dir1 = "[(''clip1.mp4'', ?e)]"
  have free: "0 < semaphore ?s" by simp
  have call: "?ydl (download_opts ?cfg (req_quality ?req)
                 (path_join (DOWNLOAD_DIR ?cfg)
                    (resolve_filename 1000 (req_filename ?req) @ ''.%(ext)s'')))
               (req_url ?req) True (downloads ?s) = (Inr Map.empty, ?dir1)"
    by simp
  have found: "find (\<lambda>f. startswith f (resolve_filename 1000 (req_filename ?req))) (listdir ?dir1)
                 = Some ''clip1.mp4''"
    by (simp add: listdir_def resolve_filename_def)
  have entry: "map_of ?dir1 ''clip1.mp4'' = Some ?e" by simp
  have size: "st_size ?e \<noteq> 0" by simp
  have big: "of_int (MAX_FILE_SIZE_MB ?cfg) < (of_nat (st_size ?e) :: rat) / (1024 * 1024)"
    by simp
  have rm: "unlink_error ?e = None" by simp
  have fmt: "format_1f (of_nat (st_size ?e) / (1024 * 1024)) = ''105.2''"
    by (simp add: num_eval)
  from download_video_file_too_large [where ydl = ?ydl and s = ?s and req = ?req and cfg = ?cfg,
         OF free call found entry size big rm]
  have "download_video ?cfg ?ydl 1000 ?req ?s =
          (Inl (400, ''FILE_TOO_LARGE:'' @ format_1f (of_nat (st_size ?e) / (1024 * 1024)) @ ''MB''),
           ?s\<lparr>downloads := filter (\<lambda>p. fst p \<noteq> ''clip1.mp4'') ?dir1\<rparr>)"
    by (rule conjunct1)
  then have "download_video ?cfg ?ydl 1000 ?req ?s = (Inl (400, ''FILE_TOO_LARGE:105.2MB''), ?s)"
    by (simp only: fmt) simp
  with free show ?thesis by simp
qed

text \<open>
  The two failing cases. With \<^verbatim>\<open>MAX_FILE_SIZE_MB = -1\<close> a file of 0 bytes is larger than the
  limit, and the answer is the empty-file error of line 173. With a limit of 100 and a file
  of 110362624 bytes on which \<^verbatim>\<open>os.unlink\<close> raises, the answer is the text of that error
  and the file is still in the directory.
\<close>

theorem download_video_file_too_large_counterexample:
  "(of_int (- 1) :: rat) < of_nat 0 / (1024 * 1024) \<and>
   download_video
     \<lparr>DOWNLOAD_DIR = ''/downloads'', MAX_CONCURRENT = 5, MAX_DURATION = 600, MAX_FILE_SIZE_MB = - 1\<rparr>
     (\<lambda>opts url dl dir.
        (Inr Map.empty,
         dir @ [(''clip1.mp4'', \<lparr>regular = True, st_size = 0, st_mtime = 1000,
                                  unlink_error = None\<rparr>)]))
     1000
     \<lparr>req_url = ''https://example.org/v'', req_quality = ''720'', req_filename = Some ''clip1''\<rparr>
     \<lparr>semaphore = 5, active_downloads = 0, downloads = []\<rparr>
   = (Inl (400, ''Downloaded file is empty''),
      \<lparr>semaphore = 5, active_downloads = 0, downloads = []\<rparr>) \<and>
   (of_int 100 :: rat) < of_nat 110362624 / (1024 * 1024) \<and>
   download_video
     \<lparr>DOWNLOAD_DIR = ''/downloads'', MAX_CONCURRENT = 5, MAX_DURATION = 600, MAX_FILE_SIZE_MB = 100\<rparr>
     (\<lambda>opts url dl dir.
        (Inr Map.empty,
         dir @ [(''clip1.mp4'', \<lparr>regular = True, st_size = 110362624, st_mtime = 1000,
                   unlink_error = Some (''[Errno 13] Permission denied: '/downloads/clip1.mp4'' @ [CHR 0x27])\<rparr>)]))
     1000
     \<lparr>req_url = ''https://example.org/v'', req_quality = ''720'', req_filename = Some ''clip1''\<rparr>
     \<lparr>semaphore = 5, active_downloads = 0, downloads = []\<rparr>
   = (Inl (400, ''[Errno 13] Permission denied: '/downloads/clip1.mp4'' @ [CHR 0x27]),
      \<lparr>semaphore = 5, active_downloads = 0,
        downloads = [(''clip1.mp4'', \<lparr>regular = True, st_size = 110362624, st_mtime = 1000,
                   unlink_error = Some (''[Errno 13] Permission denied: '/downloads/clip1.mp4'' @ [CHR 0x27])\<rparr>)]\<rparr>)"
proof -
  let ?neg = "\<lparr>DOWNLOAD_DIR = ''/downloads'', MAX_CONCURRENT = 5, MAX_DURATION = 600,
               MAX_FILE_SIZE_MB = - 1\<rparr>"
  let ?cfg = "\<lparr>DOWNLOAD_DIR = ''/downloads'', MAX_CONCURRENT = 5, MAX_DURATION = 600,
               MAX_FILE_SIZE_MB = 100\<rparr>"
  let ?msg = "''[Errno 13] Permission denied: '/downloads/clip1.mp4'' @ [CHR 0x27]"
  let ?emp = "\<lparr>regular = True, st_size = 0, st_mtime = 1000, unlink_error = None\<rparr>"
  let ?e = "\<lparr>regular = True, st_size = 110362624, st_mtime = 1000, unlink_error = Some ?msg\<rparr>"
  let ?ydlemp = "\<lambda>(opts::dict) (url::string) (dl::bool) (dir::directory).
                (Inr Map.empty :: string + dict, dir @ [(''clip1.mp4'', ?emp)])"
  let ?ydl = "\<lambda>(opts::dict) (url::string) (dl::bool) (dir::directory).
                (Inr Map.empty :: string + dict, dir @ [(''clip1.mp4'', ?e)])"
  let ?req = "\<lparr>req_url = ''https://example.org/v'', req_quality = ''720'',
               req_filename = Some ''clip1''\<rparr>"
  let ?s = "\<lparr>semaphore = 5, active_downloads = 0, downloads = []\<rparr>"
  have over0: "(of_int (- 1) :: rat) < of_nat 0 / (1024 * 1024)" by simp
  have over: "(of_int 100 :: rat) < of_nat 110362624 / (1024 * 1024)" by simp
  have call0: "?ydlemp (download_opts ?neg (req_quality ?req)
                 (path_join (DOWNLOAD_DIR ?neg)
                    (resolve_filename 1000 (req_filename ?req) @ ''.%(ext)s'')))
               (req_url ?req) True (downloads ?s) = (Inr Map.empty, [(''clip1.mp4'', ?emp)])"
    by simp
  have found0: "find (\<lambda>f. startswith f (resolve_filename 1000 (req_filename ?req)))
                  (listdir [(''clip1.mp4'', ?emp)]) = Some ''clip1.mp4''"
    by (simp add: listdir_def resolve_filename_def)
  have d0: "download ?neg ?ydlemp 1000 (req_url ?req) (req_quality ?req) (req_filename ?req)
              (downloads ?s)
            = (Inl ''Downloaded file is empty'', filter (\<lambda>p. fst p \<noteq> ''clip1.mp4'') [(''clip1.mp4'', ?emp)])"
  proof -
    have entry: "map_of [(''clip1.mp4'', ?emp)] ''clip1.mp4'' = Some ?emp" by simp
    have size: "st_size ?emp = 0" by simp
    have rm: "unlink_error ?emp = None" by simp
    show ?thesis
      by (rule download_empty [where ydl = ?ydlemp and dir = "downloads ?s",
            OF call0 found0 entry size rm])
  qed
  have a: "download_video ?neg ?ydlemp 1000 ?req ?s = (Inl (400, ''Downloaded file is empty''), ?s)"
    using d0 by (simp add: download_video_def Let_def job_response_def parse_error_empty_file)
  have call: "?ydl (download_opts ?cfg (req_quality ?req)
                 (path_join (DOWNLOAD_DIR ?cfg)
                    (resolve_filename 1000 (req_filename ?req) @ ''.%(ext)s'')))
               (req_url ?req) True (downloads ?s) = (Inr Map.empty, [(''clip1.mp4'', ?e)])"
    by simp
  have found: "find (\<lambda>f. startswith f (resolve_filename 1000 (req_filename ?req)))
                  (listdir [(''clip1.mp4'', ?e)]) = Some ''clip1.mp4''"
    by (simp add: listdir_def resolve_filename_def)
  have d: "download ?cfg ?ydl 1000 (req_url ?req) (req_quality ?req) (req_filename ?req)
              (downloads ?s)
            = (Inl ?msg, [(''clip1.mp4'', ?e)])"
  proof -
    have entry: "map_of [(''clip1.mp4'', ?e)] ''clip1.mp4'' = Some ?e" by simp
    have size: "st_size ?e = 0 \<or>
        of_int (MAX_FILE_SIZE_MB ?cfg) < (of_nat (st_size ?e) :: rat) / (1024 * 1024)" by simp
    have rm: "unlink_error ?e = Some ?msg" by simp
    show ?thesis
      by (rule download_unlink_fails [where ydl = ?ydl and dir = "downloads ?s",
            OF call found entry size rm])
  qed
  have p: "parse_error 600 ?msg = ?msg"
    by (simp add: parse_error_def lower_eval)
  have b: "download_video ?cfg ?ydl 1000 ?req ?s
             = (Inl (400, ?msg), ?s\<lparr>downloads := [(''clip1.mp4'', ?e)]\<rparr>)"
    using d p by (simp add: download_video_def Let_def job_response_def)
  from over0 a over b show ?thesis by simp
qed

subsection \<open>Claim C6\<close>

text \<open>
  Claim C6, as stated, fails for an empty file that \<^verbatim>\<open>os.unlink\<close> cannot remove: the file
  stays in the directory and the error of \<^verbatim>\<open>os.unlink\<close> is reported. It holds in every
  other case. The request is admitted, the engine returns, and the first entry whose name
  starts with the resolved file name has 0 bytes and can be removed by \<^verbatim>\<open>os.unlink\<close>. Then
  the entry is gone from the directory and the answer is status 400 with the text of the
  empty-file error, \<^verbatim>\<open>Downloaded file is empty\<close>, which the error parser passes through
  unchanged.
\<close>

theorem download_video_empty_file:
  assumes "0 < semaphore s"
    and "ydl (download_opts cfg (req_quality req)
                (path_join (DOWNLOAD_DIR cfg)
                   (resolve_filename now (req_filename req) @ ''.%(ext)s'')))
             (req_url req) True (downloads s) = (Inr info, dir1)"
    and "find (\<lambda>f. startswith f (resolve_filename now (req_filename req))) (listdir dir1) = Some f"
    and "map_of dir1 f = Some e"
    and "st_size e = 0"
    and "unlink_error e = None"
  shows "download_video cfg ydl now req s =
           (Inl (400, ''Downloaded file is empty''), s\<lparr>downloads := filter (\<lambda>p. fst p \<noteq> f) dir1\<rparr>) \<and>
         f \<notin> set (listdir (filter (\<lambda>p. fst p \<noteq> f) dir1))"
proof -
  have "download cfg ydl now (req_url req) (req_quality req) (req_filename req) (downloads s) =
          (Inl ''Downloaded file is empty'', filter (\<lambda>p. fst p \<noteq> f) dir1)"
    by (rule download_empty [where ydl = ydl and url = "req_url req" and dir = "downloads s",
          OF assms(2-6)])
  with assms(1) show ?thesis
    by (simp add: download_video_def job_response_def Let_def parse_error_empty_file
        listdir_filter_gone)
qed

theorem download_video_empty_file_witness:
  "0 < semaphore \<lparr>semaphore = 5, active_downloads = 0,
                   downloads = [(''old.mp4'', \<lparr>regular = True, st_size = 7, st_mtime = 10,
                                                unlink_error = None\<rparr>)]\<rparr> \<and>
   download_video
     \<lparr>DOWNLOAD_DIR = ''/downloads'', MAX_CONCURRENT = 5, MAX_DURATION = 600, MAX_FILE_SIZE_MB = 100\<rparr>
     (\<lambda>opts url dl dir.
        (Inr Map.empty,
         dir @ [(''clip1.mp4'', \<lparr>regular = True, st_size = 0, st_mtime = 1000,
                                  unlink_error = None\<rparr>)]))
     1000
     \<lparr>req_url = ''https://example.org/v'', req_quality = ''720'', req_filename = Some ''clip1''\<rparr>
     \<lparr>semaphore = 5, active_downloads = 0,
       downloads = [(''old.mp4'', \<lparr>regular = True, st_size = 7, st_mtime = 10, unlink_error = None\<rparr>)]\<rparr>
   = (Inl (400, ''Downloaded file is empty''),
      \<lparr>semaphore = 5, active_downloads = 0,
        downloads = [(''old.mp4'', \<lparr>regular = True, st_size = 7, st_mtime = 10,
                                     unlink_error = None\<rparr>)]\<rparr>)"
proof -
  let ?cfg = "\<lparr>DOWNLOAD_DIR = ''/downloads'', MAX_CONCURRENT = 5, MAX_DURATION = 600,
               MAX_FILE_SIZE_MB = 100\<rparr>"
  let ?e = "\<lparr>regular = True, st_size = 0, st_mtime = 1000, unlink_error = None\<rparr>"
  let ?old = "\<lparr>regular = True, st_size = 7, st_mtime = 10, unlink_error = None\<rparr>"
  let ?ydl = "\<lambda>(opts::dict) (url::string) (dl::bool) (dir::directory).
                (Inr Map.empty :: string + dict, dir @ [(''clip1.mp4'', ?e)])"
  let ?req = "\<lparr>req_url = ''https://example.org/v'', req_quality = ''720'',
               req_filename = Some ''clip1''\<rparr>"
  let ?s = "\<lparr>semaphore = 5, active_downloads = 0, downloads = [(''old.mp4'', ?old)]\<rparr>"
  let ?dir1 = "[(''old.mp4'', ?old), (''clip1.mp4'', ?e)]"
  have free: "0 < semaphore ?s" by simp
  have call: "?ydl (download_opts ?cfg (req_quality ?req)
                 (path_join (DOWNLOAD_DIR ?cfg)
                    (resolve_filename 1000 (req_filename ?req) @ ''.%(ext)s'')))
               (req_url ?req) True (downloads ?s) = (Inr Map.empty, ?dir1)"
    by simp
  have found: "find (\<lambda>f. startswith f (resolve_filename 1000 (req_filename ?req))) (listdir ?dir1)
                 = Some ''clip1.mp4''"
    by (simp add: listdir_def resolve_filename_def)
  have entry: "map_of ?dir1 ''clip1.mp4'' = Some ?e" by simp
  have size: "st_size ?e = 0" by simp
  have rm: "unlink_error ?e = None" by simp
  from download_video_empty_file [where ydl = ?ydl and s = ?s and req = ?req and cfg = ?cfg,
         OF free call found entry size rm]
  have "download_video ?cfg ?ydl 1000 ?req ?s =
          (Inl (400, ''Downloaded file is empty''),
           ?s\<lparr>downloads := filter (\<lambda>p. fst p \<noteq> ''clip1.mp4'') ?dir1\<rparr>)"
    by (rule conjunct1)
  with free show ?thesis by simp
qed

text \<open>
  The failing case: a file of 0 bytes on which \<^verbatim>\<open>os.unlink\<close> raises. The answer is the text
  of that error and the file is still in the directory.
\<close>

theorem download_video_empty_file_counterexample:
  "download_video
     \<lparr>DOWNLOAD_DIR = ''/downloads'', MAX_CONCURRENT = 5, MAX_DURATION = 600, MAX_FILE_SIZE_MB = 100\<rparr>
     (\<lambda>opts url dl dir.
        (Inr Map.empty,
         dir @ [(''clip1.mp4'', \<lparr>regular = True, st_size = 0, st_mtime = 1000,
                   unlink_error = Some (''[Errno 13] Permission denied: '/downloads/clip1.mp4'' @ [CHR 0x27])\<rparr>)]))
     1000
     \<lparr>req_url = ''https://example.org/v'', req_quality = ''720'', req_filename = Some ''clip1''\<rparr>
     \<lparr>semaphore = 5, active_downloads = 0, downloads = []\<rparr>
   = (Inl (400, ''[Errno 13] Permission denied: '/downloads/clip1.mp4'' @ [CHR 0x27]),
      \<lparr>semaphore = 5, active_downloads = 0,
        downloads = [(''clip1.mp4'', \<lparr>regular = True, st_size = 0, st_mtime = 1000,
                   unlink_error = Some (''[Errno 13] Permission denied: '/downloads/clip1.mp4'' @ [CHR 0x27])\<rparr>)]\<rparr>)"
proof -
  let ?cfg = "\<lparr>DOWNLOAD_DIR = ''/downloads'', MAX_CONCURRENT = 5, MAX_DURATION = 600,
               MAX_FILE_SIZE_MB = 100\<rparr>"
  let ?msg = "''[Errno 13] Permission denied: '/downloads/clip1.mp4'' @ [CHR 0x27]"
  let ?e = "\<lparr>regular = True, st_size = 0, st_mtime = 1000, unlink_error = Some ?msg\<rparr>"
  let ?ydl = "\<lambda>(opts::dict) (url::string) (dl::bool) (dir::directory).
                (Inr Map.empty :: string + dict, dir @ [(''clip1.mp4'', ?e)])"
  let ?req = "\<lparr>req_url = ''https://example.org/v'', req_quality = ''720'',
               req_filename = Some ''clip1''\<rparr>"
  let ?s = "\<lparr>semaphore = 5, active_downloads = 0, downloads = []\<rparr>"
  have call: "?ydl (download_opts ?cfg (req_quality ?req)
                 (path_join (DOWNLOAD_DIR ?cfg)
                    (resolve_filename 1000 (req_filename ?req) @ ''.%(ext)s'')))
               (req_url ?req) True (downloads ?s) = (Inr Map.empty, [(''clip1.mp4'', ?e)])"
    by simp
  have found: "find (\<lambda>f. startswith f (resolve_filename 1000 (req_filename ?req)))
                  (listdir [(''clip1.mp4'', ?e)]) = Some ''clip1.mp4''"
    by (simp add: listdir_def resolve_filename_def)
  have d: "download ?cfg ?ydl 1000 (req_url ?req) (req_quality ?req) (req_filename ?req)
              (downloads ?s)
            = (Inl ?msg, [(''clip1.mp4'', ?e)])"
  proof -
    have entry: "map_of [(''clip1.mp4'', ?e)] ''clip1.mp4'' = Some ?e" by simp
    have size: "st_size ?e = 0 \<or>
        of_int (MAX_FILE_SIZE_MB ?cfg) < (of_nat (st_size ?e) :: rat) / (1024 * 1024)" by simp
    have rm: "unlink_error ?e = Some ?msg" by simp
    show ?thesis
      by (rule download_unlink_fails [where ydl = ?ydl and dir = "downloads ?s",
            OF call found entry size rm])
  qed
  have p: "parse_error 600 ?msg = ?msg"
    by (simp add: parse_error_def lower_eval)
  have "download_video ?cfg ?ydl 1000 ?req ?s
             = (Inl (400, ?msg), ?s\<lparr>downloads := [(''clip1.mp4'', ?e)]\<rparr>)"
    using d p by (simp add: download_video_def Let_def job_response_def)
  then show ?thesis by simp
qed

subsection \<open>Claim C7\<close>

text \<open>
  Claim C7. For a directory with distinct names, one cycle keeps exactly the entries that
  are not a regular file, or are at most 600 seconds old, or raise in \<^verbatim>\<open>os.unlink\<close>; it
  deletes every other entry, also after an entry that raised. A cycle that raises leaves
  the loop running: the cycles after it run as if it had not been.
\<close>

theorem cleanup_old_files_sweep:
  assumes "distinct (listdir dir)"
  shows "\<exists>dir'. cleanup_old_files now None dir = Inr dir' \<and>
           dir' = filter (\<lambda>p. \<not> (regular (snd p) \<and> 600 < now - st_mtime (snd p) \<and>
                                   unlink_error (snd p) = None)) dir \<and>
           (\<forall>p\<in>set dir. p \<notin> set dir' \<longleftrightarrow>
               regular (snd p) \<and> 600 < now - st_mtime (snd p) \<and> unlink_error (snd p) = None) \<and>
           cleanup_loop [(now, None)] dir = dir' \<and>
           cleanup_loop (before @ (t, Some msg) # after) dir = cleanup_loop (before @ after) dir"
proof -
  let ?gone = "\<lambda>p. regular (snd p) \<and> 600 < now - st_mtime (snd p) \<and> unlink_error (snd p) = None"
  from assms have d: "distinct (map fst dir)" by (simp add: listdir_def)
  have "foldl (cleanup_file now) dir (listdir dir) =
          filter (\<lambda>p. fst p \<in> set (listdir dir) \<longrightarrow> \<not> ?gone p) dir"
    by (rule cleanup_fold_filter [OF d])
  also have "\<dots> = filter (\<lambda>p. \<not> ?gone p) dir"
    by (auto intro: filter_cong simp: listdir_def)
  finally have eq: "cleanup_old_files now None dir = Inr (filter (\<lambda>p. \<not> ?gone p) dir)"
    by (simp add: cleanup_old_files_def)
  have skip: "cleanup_loop (before @ (t, Some msg) # after) dir = cleanup_loop (before @ after) dir"
    by (simp add: cleanup_loop_append cleanup_old_files_def)
  from eq skip show ?thesis by auto
qed

theorem cleanup_old_files_sweep_witness:
  "distinct (listdir
     [(''old.mp4'', \<lparr>regular = True, st_size = 10, st_mtime = 399, unlink_error = None\<rparr>),
      (''new.mp4'', \<lparr>regular = True, st_size = 10, st_mtime = 401, unlink_error = None\<rparr>),
      (''busy.mp4'', \<lparr>regular = True, st_size = 10, st_mtime = 0,
                      unlink_error = Some ''[Errno 13] Permission denied''\<rparr>),
      (''cache'', \<lparr>regular = False, st_size = 4096, st_mtime = 0, unlink_error = None\<rparr>),
      (''older.mp4'', \<lparr>regular = True, st_size = 10, st_mtime = 1, unlink_error = None\<rparr>)]) \<and>
   cleanup_old_files 1000 None
     [(''old.mp4'', \<lparr>regular = True, st_size = 10, st_mtime = 399, unlink_error = None\<rparr>),
      (''new.mp4'', \<lparr>regular = True, st_size = 10, st_mtime = 401, unlink_error = None\<rparr>),
      (''busy.mp4'', \<lparr>regular = True, st_size = 10, st_mtime = 0,
                      unlink_error = Some ''[Errno 13] Permission denied''\<rparr>),
      (''cache'', \<lparr>regular = False, st_size = 4096, st_mtime = 0, unlink_error = None\<rparr>),
      (''older.mp4'', \<lparr>regular = True, st_size = 10, st_mtime = 1, unlink_error = None\<rparr>)]
   = Inr
     [(''new.mp4'', \<lparr>regular = True, st_size = 10, st_mtime = 401, unlink_error = None\<rparr>),
      (''busy.mp4'', \<lparr>regular = True, st_size = 10, st_mtime = 0,
                      unlink_error = Some ''[Errno 13] Permission denied''\<rparr>),
      (''cache'', \<lparr>regular = False, st_size = 4096, st_mtime = 0, unlink_error = None\<rparr>)]"
proof -
  let ?dir = "[(''old.mp4'', \<lparr>regular = True, st_size = 10, st_mtime = 399, unlink_error = None\<rparr>),
      (''new.mp4'', \<lparr>regular = True, st_size = 10, st_mtime = 401, unlink_error = None\<rparr>),
      (''busy.mp4'', \<lparr>regular = True, st_size = 10, st_mtime = 0,
                      unlink_error = Some ''[Errno 13] Permission denied''\<rparr>),
      (''cache'', \<lparr>regular = False, st_size = 4096, st_mtime = 0, unlink_error = None\<rparr>),
      (''older.mp4'', \<lparr>regular = True, st_size = 10, st_mtime = 1, unlink_error = None\<rparr>)]"
  have h: "distinct (listdir ?dir)" by (simp add: listdir_def)
  from cleanup_old_files_sweep [OF h, of 1000 "[]" 0 "''x''" "[]"]
  have "cleanup_old_files 1000 None ?dir =
          Inr (filter (\<lambda>p. \<not> (regular (snd p) \<and> 600 < 1000 - st_mtime (snd p) \<and>
                                   unlink_error (snd p) = None)) ?dir)"
    by blast
  with h show ?thesis by simp
qed

subsection \<open>Claim C8\<close>

text \<open>
  Claim C8, as stated, fails on a text that also contains \<^verbatim>\<open>does not pass filter\<close>: the
  duration rules come first. It holds for every text around \<^verbatim>\<open>private video\<close>, in any
  letter case, whose lowered form contains neither \<^verbatim>\<open>does not pass filter\<close> nor
  \<^verbatim>\<open>duration\<close>.
\<close>

theorem parse_error_private_video:
  assumes "lower v = ''private video''"
    and "\<not> contains (lower (pre @ v @ post)) ''does not pass filter''"
    and "\<not> contains (lower (pre @ v @ post)) ''duration''"
  shows "parse_error md (pre @ v @ post) = ''This video is private or requires login''"
proof -
  have "contains (lower (pre @ v @ post)) (lower v)"
    by (simp add: lower_append contains_middle)
  with assms show ?thesis
    by (simp add: parse_error_def Let_def)
qed

theorem parse_error_private_video_witness:
  "lower ''Private Video'' = ''private video'' \<and>
   \<not> contains (lower (''ERROR: [youtube] abc: '' @ ''Private Video'' @ ''. Sign in if you have access'')) ''does not pass filter'' \<and>
   \<not> contains (lower (''ERROR: [youtube] abc: '' @ ''Private Video'' @ ''. Sign in if you have access'')) ''duration'' \<and>
   parse_error 600 (''ERROR: [youtube] abc: '' @ ''Private Video'' @ ''. Sign in if you have access'')
     = ''This video is private or requires login''"
proof -
  have a: "lower ''Private Video'' = ''private video''" by (simp add: lower_eval)
  have b: "\<not> contains (lower (''ERROR: [youtube] abc: '' @ ''Private Video'' @ ''. Sign in if you have access'')) ''does not pass filter''"
    by (simp add: lower_eval)
  have c: "\<not> contains (lower (''ERROR: [youtube] abc: '' @ ''Private Video'' @ ''. Sign in if you have access'')) ''duration''"
    by (simp add: lower_eval)
  from a b c parse_error_private_video [OF a b c, of 600] show ?thesis by simp
qed

theorem parse_error_private_video_counterexample:
  "lower ''Private Video'' = ''private video'' \<and>
   parse_error 600
     (''My '' @ ''Private Video'' @ '' does not pass filter (duration <= 600), skipping ..'')
     = ''DURATION_TOO_LONG:over 10 minutes'' \<and>
   parse_error 600
     (''My '' @ ''Private Video'' @ '' does not pass filter (duration <= 600), skipping ..'')
     \<noteq> ''This video is private or requires login''"
  by (simp add: parse_error_def lower_eval str_int_def str_nat.simps)

subsection \<open>Claim C9\<close>

text \<open>
  Claim C9. When the engine returns the dictionary \<^verbatim>\<open>info\<close>, the result's \<^verbatim>\<open>filesize\<close> is the
  engine's \<^verbatim>\<open>filesize\<close> when that is truthy (an integer other than 0), and the engine's
  \<^verbatim>\<open>filesize_approx\<close> otherwise, so also when \<^verbatim>\<open>filesize\<close> is 0, \<^verbatim>\<open>None\<close> or missing; the
  result's \<^verbatim>\<open>url\<close> is the engine's \<^verbatim>\<open>url\<close> when that is truthy (a non-empty string), and
  the engine's \<^verbatim>\<open>webpage_url\<close> otherwise.
\<close>

theorem extract_info_fallback:
  assumes "fst (ydl info_opts url False dir) = Inr info"
  shows "\<exists>r. extract_info ydl dir url = Inr r \<and>
     (\<forall>n. info ''filesize'' = Some (VInt n) \<and> n \<noteq> 0 \<longrightarrow> r ''filesize'' = Some (VInt n)) \<and>
     (info ''filesize'' = Some (VInt 0) \<or> info ''filesize'' = Some VNone \<or> info ''filesize'' = None
        \<longrightarrow> r ''filesize'' = Some (dict_get info ''filesize_approx'')) \<and>
     (truthy (dict_get info ''filesize'') \<longrightarrow> r ''filesize'' = Some (dict_get info ''filesize'')) \<and>
     (\<not> truthy (dict_get info ''filesize'') \<longrightarrow> r ''filesize'' = Some (dict_get info ''filesize_approx'')) \<and>
     (\<forall>u. info ''url'' = Some (VStr u) \<and> u \<noteq> [] \<longrightarrow> r ''url'' = Some (VStr u)) \<and>
     (info ''url'' = Some (VStr []) \<or> info ''url'' = Some VNone \<or> info ''url'' = None
        \<longrightarrow> r ''url'' = Some (dict_get info ''webpage_url'')) \<and>
     (truthy (dict_get info ''url'') \<longrightarrow> r ''url'' = Some (dict_get info ''url'')) \<and>
     (\<not> truthy (dict_get info ''url'') \<longrightarrow> r ''url'' = Some (dict_get info ''webpage_url''))"
  using assms by (auto simp: extract_info_def dict_get_def py_or_def)

theorem extract_info_fallback_witness:
  "\<exists>r. extract_info
          (\<lambda>opts url dl dir.
             (Inr [''filesize'' \<mapsto> VInt 0, ''filesize_approx'' \<mapsto> VInt 5000,
                   ''webpage_url'' \<mapsto> VStr ''https://example.org/w''], dir))
          [] ''https://example.org/v'' = Inr r \<and>
       r ''filesize'' = Some (VInt 5000) \<and>
       r ''url'' = Some (VStr ''https://example.org/w'')"
proof -
  let ?info = "[''filesize'' \<mapsto> VInt 0, ''filesize_approx'' \<mapsto> VInt 5000,
                ''webpage_url'' \<mapsto> VStr ''https://example.org/w'']"
  let ?ydl = "\<lambda>(opts::dict) (url::string) (dl::bool) (dir::directory). (Inr ?info :: string + dict, dir)"
  have h: "fst (?ydl info_opts ''https://example.org/v'' False []) = Inr ?info" by simp
  from extract_info_fallback [of ?ydl "''https://example.org/v''" "[]" ?info, OF h]
  show ?thesis by (simp add: dict_get_def)
qed

subsection \<open>Claim C10\<close>

text \<open>
  Claim C10. When \<^verbatim>\<open>_download\<close> succeeds, the file name it returns is the first name in the
  listing of the directory, as the engine left it, that starts with the resolved file
  name. With \<^verbatim>\<open>clip10.mp4\<close> in the directory before the call and the file name \<^verbatim>\<open>clip1\<close>,
  the engine writes \<^verbatim>\<open>clip1.mp4\<close> and the call returns \<^verbatim>\<open>clip10.mp4\<close>.
\<close>

theorem download_first_prefix_match:
  "(download cfg ydl now url quality filename dir = (Inr result, dir') \<longrightarrow>
      (\<exists>i. i < length (listdir dir') \<and>
           result ''filename'' = Some (VStr (listdir dir' ! i)) \<and>
           startswith (listdir dir' ! i) (resolve_filename now filename) \<and>
           (\<forall>j<i. \<not> startswith (listdir dir' ! j) (resolve_filename now filename)) \<and>
           dir' = snd (ydl (download_opts cfg quality
                       (path_join (DOWNLOAD_DIR cfg) (resolve_filename now filename @ ''.%(ext)s'')))
                     url True dir))) \<and>
   (\<exists>result.
      download
        \<lparr>DOWNLOAD_DIR = ''/downloads'', MAX_CONCURRENT = 5, MAX_DURATION = 600,
          MAX_FILE_SIZE_MB = 100\<rparr>
        (\<lambda>opts url dl dir.
           (Inr Map.empty,
            dir @ [(''clip1.mp4'', \<lparr>regular = True, st_size = 3145728, st_mtime = 1000,
                                     unlink_error = None\<rparr>)]))
        1000 ''https://example.org/v'' ''720'' (Some ''clip1'')
        [(''clip10.mp4'', \<lparr>regular = True, st_size = 1048576, st_mtime = 10, unlink_error = None\<rparr>)]
      = (Inr result,
         [(''clip10.mp4'', \<lparr>regular = True, st_size = 1048576, st_mtime = 10, unlink_error = None\<rparr>),
          (''clip1.mp4'', \<lparr>regular = True, st_size = 3145728, st_mtime = 1000,
                           unlink_error = None\<rparr>)]) \<and>
      result ''filename'' = Some (VStr ''clip10.mp4'') \<and>
      result ''size_mb'' = Some (VFloat 1)) \<and>
   download
     \<lparr>DOWNLOAD_DIR = ''/downloads'', MAX_CONCURRENT = 5, MAX_DURATION = 600, MAX_FILE_SIZE_MB = 100\<rparr>
     (\<lambda>opts url dl dir.
        (Inr Map.empty,
         dir @ [(''clip1.mp4'', \<lparr>regular = True, st_size = 3145728, st_mtime = 1000,
                                  unlink_error = None\<rparr>)]))
     1000 ''https://example.org/v'' ''720'' (Some ''clip1'')
     [(''clip10.mp4'', \<lparr>regular = True, st_size = 0, st_mtime = 10, unlink_error = None\<rparr>)]
   = (Inl ''Downloaded file is empty'',
      [(''clip1.mp4'', \<lparr>regular = True, st_size = 3145728, st_mtime = 1000, unlink_error = None\<rparr>)])"
proof (intro conjI impI)
  assume "download cfg ydl now url quality filename dir = (Inr result, dir')"
  then show "\<exists>i. i < length (listdir dir') \<and>
           result ''filename'' = Some (VStr (listdir dir' ! i)) \<and>
           startswith (listdir dir' ! i) (resolve_filename now filename) \<and>
           (\<forall>j<i. \<not> startswith (listdir dir' ! j) (resolve_filename now filename)) \<and>
           dir' = snd (ydl (download_opts cfg quality
                       (path_join (DOWNLOAD_DIR cfg) (resolve_filename now filename @ ''.%(ext)s'')))
                     url True dir)"
    by (rule download_success_filename)
next
  show "\<exists>result.
      download
        \<lparr>DOWNLOAD_DIR = ''/downloads'', MAX_CONCURRENT = 5, MAX_DURATION = 600,
          MAX_FILE_SIZE_MB = 100\<rparr>
        (\<lambda>opts url dl dir.
           (Inr Map.empty,
            dir @ [(''clip1.mp4'', \<lparr>regular = True, st_size = 3145728, st_mtime = 1000,
                                     unlink_error = None\<rparr>)]))
        1000 ''https://example.org/v'' ''720'' (Some ''clip1'')
        [(''clip10.mp4'', \<lparr>regular = True, st_size = 1048576, st_mtime = 10, unlink_error = None\<rparr>)]
      = (Inr result,
         [(''clip10.mp4'', \<lparr>regular = True, st_size = 1048576, st_mtime = 10, unlink_error = None\<rparr>),
          (''clip1.mp4'', \<lparr>regular = True, st_size = 3145728, st_mtime = 1000,
                           unlink_error = None\<rparr>)]) \<and>
      result ''filename'' = Some (VStr ''clip10.mp4'') \<and>
      result ''size_mb'' = Some (VFloat 1)"
    by (subst download_example_returned) simp
next
  show "download
     \<lparr>DOWNLOAD_DIR = ''/downloads'', MAX_CONCURRENT = 5, MAX_DURATION = 600, MAX_FILE_SIZE_MB = 100\<rparr>
     (\<lambda>opts url dl dir.
        (Inr Map.empty,
         dir @ [(''clip1.mp4'', \<lparr>regular = True, st_size = 3145728, st_mtime = 1000,
                                  unlink_error = None\<rparr>)]))
     1000 ''https://example.org/v'' ''720'' (Some ''clip1'')
     [(''clip10.mp4'', \<lparr>regular = True, st_size = 0, st_mtime = 10, unlink_error = None\<rparr>)]
   = (Inl ''Downloaded file is empty'',
      [(''clip1.mp4'', \<lparr>regular = True, st_size = 3145728, st_mtime = 1000, unlink_error = None\<rparr>)])"
    by (rule download_example_deleted)
qed

theorem download_first_prefix_match_witness:
  "download
     \<lparr>DOWNLOAD_DIR = ''/downloads'', MAX_CONCURRENT = 5, MAX_DURATION = 600, MAX_FILE_SIZE_MB = 100\<rparr>
     (\<lambda>opts url dl dir.
        (Inr Map.empty,
         dir @ [(''clip1.mp4'', \<lparr>regular = True, st_size = 3145728, st_mtime = 1000,
                                  unlink_error = None\<rparr>)]))
     1000 ''https://example.org/v'' ''720'' (Some ''clip1'')
     [(''clip10.mp4'', \<lparr>regular = True, st_size = 1048576, st_mtime = 10, unlink_error = None\<rparr>)]
   = (Inr [''filename'' \<mapsto> VStr ''clip10.mp4'',
           ''size_mb'' \<mapsto> VFloat 1,
           ''duration'' \<mapsto> VNone,
           ''title'' \<mapsto> VNone,
           ''format'' \<mapsto> VStr ''MP4''],
      [(''clip10.mp4'', \<lparr>regular = True, st_size = 1048576, st_mtime = 10, unlink_error = None\<rparr>),
       (''clip1.mp4'', \<lparr>regular = True, st_size = 3145728, st_mtime = 1000, unlink_error = None\<rparr>)]) \<and>
   (\<exists>i. i < length [''clip10.mp4'', ''clip1.mp4''] \<and>
        [''clip10.mp4'', ''clip1.mp4''] ! i = ''clip10.mp4'' \<and>
        startswith ([''clip10.mp4'', ''clip1.mp4''] ! i) ''clip1'')"
proof -
  let ?cfg = "\<lparr>DOWNLOAD_DIR = ''/downloads'', MAX_CONCURRENT = 5, MAX_DURATION = 600,
               MAX_FILE_SIZE_MB = 100\<rparr>"
  let ?e1 = "\<lparr>regular = True, st_size = 3145728, st_mtime = 1000, unlink_error = None\<rparr>"
  let ?e10 = "\<lparr>regular = True, st_size = 1048576, st_mtime = 10, unlink_error = None\<rparr>"
  let ?ydl = "\<lambda>(opts::dict) (url::string) (dl::bool) (dir::directory).
                (Inr Map.empty :: string + dict, dir @ [(''clip1.mp4'', ?e1)])"
  let ?dir1 = "[(''clip10.mp4'', ?e10), (''clip1.mp4'', ?e1)]"
  let ?result = "[''filename'' \<mapsto> VStr ''clip10.mp4'', ''size_mb'' \<mapsto> VFloat 1,
                  ''duration'' \<mapsto> VNone, ''title'' \<mapsto> VNone, ''format'' \<mapsto> VStr ''MP4'']"
  have h: "download ?cfg ?ydl 1000 ''https://example.org/v'' ''720'' (Some ''clip1'')
             [(''clip10.mp4'', ?e10)] = (Inr ?result, ?dir1)"
    by (rule download_example_returned)
  from download_first_prefix_match
         [of ?cfg ?ydl 1000 "''https://example.org/v''" "''720''" "Some ''clip1''"
             "[(''clip10.mp4'', ?e10)]" ?result ?dir1] h
  have "\<exists>i. i < length (listdir ?dir1) \<and>
           ?result ''filename'' = Some (VStr (listdir ?dir1 ! i)) \<and>
           startswith (listdir ?dir1 ! i) (resolve_filename 1000 (Some ''clip1''))"
    by blast
  then have "\<exists>i. i < length [''clip10.mp4'', ''clip1.mp4''] \<and>
        [''clip10.mp4'', ''clip1.mp4''] ! i = ''clip10.mp4'' \<and>
        startswith ([''clip10.mp4'', ''clip1.mp4''] ! i) ''clip1''"
    by (simp add: listdir_def resolve_filename_def eq_commute)
  with h show ?thesis by (intro conjI)
qed

end
